theory Spec2Isabelle
  imports Complex_Main "HOL-Library.AList"
begin

section \<open>Numbers and failures\<close>

text \<open>
  The calculation engine of \<^verbatim>\<open>src/main.py\<close> (class \<^verbatim>\<open>FinancialCalculator\<close>) works on
  Python numbers. They are embedded as \<^typ>\<open>real\<close>: integers are exact in Python, and floats
  are idealised (no rounding, no overflow). The single non-finite value the code uses is
  \<^verbatim>\<open>float('inf')\<close>, the upper limit of the last tax slab.
\<close>

datatype bound = Fin real | Inf

text \<open>
  Comparisons of a finite number with a possibly infinite one, and \<^verbatim>\<open>min(x, b)\<close>.
\<close>

fun lt_bound :: "real \<Rightarrow> bound \<Rightarrow> bool" where
  "lt_bound x (Fin b) = (x < b)"
| "lt_bound x Inf = True"

fun le_bound :: "real \<Rightarrow> bound \<Rightarrow> bool" where
  "le_bound x (Fin b) = (x \<le> b)"
| "le_bound x Inf = True"

fun min_bound :: "real \<Rightarrow> bound \<Rightarrow> real" where
  "min_bound x (Fin b) = min x b"
| "min_bound x Inf = x"

text \<open>
  The exceptions a call can end with: the two Python exceptions the engine's own
  expressions can raise, and the error PuLP raises when its solver run fails.
\<close>

datatype failure = ZeroDivisionError | TypeError | PulpSolverError

definition py_div :: "real \<Rightarrow> real \<Rightarrow> failure + real" where
  "py_div a b = (if b = 0 then Inl ZeroDivisionError else Inr (a / b))"

text \<open>\<^verbatim>\<open>d.get(k, default)\<close> on a dictionary given as an association list.\<close>

definition dict_get :: "('k \<times> 'v) list \<Rightarrow> 'k \<Rightarrow> 'v \<Rightarrow> 'v" where
  "dict_get d k dflt = (case map_of d k of None \<Rightarrow> dflt | Some v \<Rightarrow> v)"

section \<open>Income tax\<close>

record slab_detail =
  slab_from :: real
  slab_to :: bound
  slab_rate :: real
  slab_amount :: real
  slab_tax :: real

record tax_result =
  total_tax :: real
  base_tax :: real
  cess :: real
  effective_rate :: real
  slabs :: "slab_detail list"
  taxable_income :: real

definition new_regime_slabs :: "(bound \<times> real) list" where
  "new_regime_slabs =
     [(Fin 250000, 0), (Fin 500000, 0.05), (Fin 750000, 0.10), (Fin 1000000, 0.15),
      (Fin 1250000, 0.20), (Fin 1500000, 0.25), (Inf, 0.30)]"

definition old_regime_slabs :: "(bound \<times> real) list" where
  "old_regime_slabs =
     [(Fin 250000, 0), (Fin 500000, 0.05), (Fin 1000000, 0.20), (Inf, 0.30)]"

text \<open>
  The loop \<^verbatim>\<open>for limit, rate in slabs\<close> with its three variables \<^verbatim>\<open>tax\<close>,
  \<^verbatim>\<open>prev_limit\<close> and \<^verbatim>\<open>slab_details\<close> as the state. The body runs only when
  \<^verbatim>\<open>taxable_income > prev_limit\<close>, which is never the case once \<^verbatim>\<open>prev_limit\<close> is
  infinite; in the body \<^verbatim>\<open>prev_limit\<close> is therefore a finite number.
\<close>

fun slab_loop ::
  "real \<Rightarrow> (bound \<times> real) list \<Rightarrow> real \<times> bound \<times> slab_detail list
     \<Rightarrow> real \<times> bound \<times> slab_detail list" where
  "slab_loop ti [] st = st"
| "slab_loop ti ((limit, rate) # rest) (tax, prev_limit, slab_details) =
     (case prev_limit of
        Fin p \<Rightarrow>
          if ti > p then
            (let taxable = min_bound ti limit - p;
                 slab_tax = taxable * rate
             in slab_loop ti rest
                  (tax + slab_tax, limit,
                   slab_details @
                     [\<lparr>slab_from = p, slab_to = limit, slab_rate = rate * 100,
                       slab_amount = taxable, slab_tax = slab_tax\<rparr>]))
          else slab_loop ti rest (tax, prev_limit, slab_details)
      | Inf \<Rightarrow> slab_loop ti rest (tax, prev_limit, slab_details))"

definition calculate_income_tax :: "real \<Rightarrow> string \<Rightarrow> real \<Rightarrow> tax_result" where
  "calculate_income_tax income regime deductions =
     (let taxable_income = max (income - deductions) 0;
          slabs = (if regime = ''new'' then new_regime_slabs else old_regime_slabs);
          (tax, prev_limit, slab_details) = slab_loop taxable_income slabs (0, Fin 0, []);
          cess = tax * 0.04;
          total_tax = tax + cess
      in \<lparr>total_tax = total_tax, base_tax = tax, cess = cess,
          effective_rate = (if income > 0 then (total_tax / income) * 100 else 0),
          slabs = slab_details, taxable_income = taxable_income\<rparr>)"

subsection \<open>Notions used to state and prove the slab properties\<close>

text \<open>
  A breakdown is contiguous from \<open>p\<close> when its first entry starts at \<open>p\<close>, every entry
  ends strictly above its start, and each entry starts where the one before ends.
\<close>

fun contiguous_from :: "real \<Rightarrow> slab_detail list \<Rightarrow> bool" where
  "contiguous_from p [] = True"
| "contiguous_from p (e # es) =
     (slab_from e = p \<and> lt_bound p (slab_to e) \<and>
      (case slab_to e of Fin q \<Rightarrow> contiguous_from q es | Inf \<Rightarrow> es = []))"

text \<open>The amount \<open>x\<close> falls into the band \<open>(from, to]\<close> of an entry.\<close>

definition in_slab :: "real \<Rightarrow> slab_detail \<Rightarrow> bool" where
  "in_slab x e = (slab_from e < x \<and> le_bound x (slab_to e))"

text \<open>
  The entries the loop appends, as a function of the taxable income, the lower limit
  \<open>p\<close> and the remaining table (the loop without its accumulators).
\<close>

fun reached :: "real \<Rightarrow> real \<Rightarrow> (bound \<times> real) list \<Rightarrow> slab_detail list" where
  "reached ti p [] = []"
| "reached ti p ((limit, rate) # rest) =
     (if ti > p then
        \<lparr>slab_from = p, slab_to = limit, slab_rate = rate * 100,
         slab_amount = min_bound ti limit - p,
         slab_tax = (min_bound ti limit - p) * rate\<rparr>
        # (case limit of Fin q \<Rightarrow> reached ti q rest | Inf \<Rightarrow> [])
      else [])"

text \<open>A slab table with strictly ascending limits above \<open>p\<close> whose last limit is infinite.\<close>

fun ascending :: "real \<Rightarrow> (bound \<times> real) list \<Rightarrow> bool" where
  "ascending p [] = False"
| "ascending p ((Fin q, r) # rest) = (p < q \<and> ascending q rest)"
| "ascending p ((Inf, r) # rest) = (rest = [])"

definition rates_nonneg :: "(bound \<times> real) list \<Rightarrow> bool" where
  "rates_nonneg tbl = (\<forall>(l, r) \<in> set tbl. 0 \<le> r)"

section \<open>GST\<close>

record gst_result =
  base_price :: real
  gst_rate :: real
  gst_amount :: real
  gst_total :: real
  gst_category :: string

definition rates :: "(string \<times> real) list" where
  "rates = [(''Essential'', 0.05), (''Standard'', 0.12), (''Luxury'', 0.18), (''Special'', 0.28)]"

definition calculate_gst :: "real \<Rightarrow> string \<Rightarrow> gst_result" where
  "calculate_gst amount category =
     (let rate = dict_get rates category 0.12;
          gst_amount = amount * rate
      in \<lparr>base_price = amount, gst_rate = rate * 100, gst_amount = gst_amount,
          gst_total = amount + gst_amount, gst_category = category\<rparr>)"

section \<open>Opportunity cost\<close>

record oc_row =
  oc_year :: int
  opportunity_cost :: real

record oc_result =
  oc_total :: real
  oc_yearly :: "oc_row list"

text \<open>
  The loop \<^verbatim>\<open>for year in range(1, years + 1)\<close> over the state \<^verbatim>\<open>(total, yearly_data)\<close>.
  \<^verbatim>\<open>total\<close> is overwritten, not accumulated. The exponent \<^verbatim>\<open>year\<close> is a positive integer.
\<close>

fun oc_loop :: "real \<Rightarrow> real \<Rightarrow> int list \<Rightarrow> real \<times> oc_row list \<Rightarrow> real \<times> oc_row list" where
  "oc_loop amount alternative_return [] st = st"
| "oc_loop amount alternative_return (year # ys) (old_total, yearly_data) =
     (let total' = amount * ((1 + alternative_return) ^ nat year - 1)
      in oc_loop amount alternative_return ys
           (total', yearly_data @ [\<lparr>oc_year = year, opportunity_cost = total'\<rparr>]))"

definition calculate_opportunity_cost :: "real \<Rightarrow> int \<Rightarrow> real \<Rightarrow> oc_result" where
  "calculate_opportunity_cost amount years alternative_return =
     (let (total', yearly_data) = oc_loop amount alternative_return [1..years] (0, [])
      in \<lparr>oc_total = total', oc_yearly = yearly_data\<rparr>)"

text \<open>The entry the loop appends for a year.\<close>

definition oc_entry :: "real \<Rightarrow> real \<Rightarrow> int \<Rightarrow> oc_row" where
  "oc_entry amount r y = \<lparr>oc_year = y, opportunity_cost = amount * ((1 + r) ^ nat y - 1)\<rparr>"

section \<open>Investment growth\<close>

text \<open>
  The values of this function are Python floats until a negative base meets a fractional
  exponent: \<^verbatim>\<open>x ** a\<close> then returns a complex number and the arithmetic goes on in the
  complex numbers. The values are therefore embedded as \<^typ>\<open>complex\<close>, a float being a
  complex number with imaginary part 0; the arguments are floats.
\<close>

record year_row =
  y_year :: int
  y_nominal :: complex
  y_real :: complex
  y_growth :: complex

record growth_result =
  final_nominal :: complex
  final_real :: complex
  yearly :: "year_row list"
  cagr :: complex

definition c_div :: "complex \<Rightarrow> complex \<Rightarrow> failure + complex" where
  "c_div a b = (if b = 0 then Inl ZeroDivisionError else Inr (a / b))"

text \<open>
  \<^verbatim>\<open>z ** a\<close> for a float exponent \<open>a\<close>. A zero base raises for a negative exponent. A
  positive float base gives the real power. Any other base gives the principal value
  \<open>\<bar>z\<bar> ^ a * (cos (a * Arg z) + \<i> * sin (a * Arg z))\<close>, which for a negative float base and
  a whole exponent is again the real power.
\<close>

definition py_pow :: "complex \<Rightarrow> real \<Rightarrow> failure + complex" where
  "py_pow z a =
     (if z = 0 then
        (if a < 0 then Inl ZeroDivisionError else if a = 0 then Inr 1 else Inr 0)
      else if Im z = 0 \<and> 0 < Re z then Inr (of_real (Re z powr a))
      else Inr (of_real (cmod z powr a) * cis (a * Arg z)))"

text \<open>
  The parameter \<^verbatim>\<open>principal\<close> is written \<open>principal'\<close> (the plain name is taken in HOL).
  Lump sum: the loop over the years with the state \<^verbatim>\<open>(nominal, yearly_data)\<close>.
\<close>

fun lumpsum_loop ::
  "real \<Rightarrow> real \<Rightarrow> real \<Rightarrow> int list \<Rightarrow> complex \<times> year_row list
     \<Rightarrow> failure + (complex \<times> year_row list)" where
  "lumpsum_loop principal' rate inflation [] st = Inr st"
| "lumpsum_loop principal' rate inflation (year # ys) (nominal, yearly_data) =
     (let nominal' = nominal * of_real (1 + rate)
      in case c_div nominal' (of_real ((1 + inflation) ^ nat year)) of
           Inl e \<Rightarrow> Inl e
         | Inr real' \<Rightarrow>
             (case c_div (nominal' - of_real principal') (of_real principal') of
                Inl e \<Rightarrow> Inl e
              | Inr g \<Rightarrow>
                  lumpsum_loop principal' rate inflation ys
                    (nominal',
                     yearly_data @
                       [\<lparr>y_year = year, y_nominal = nominal', y_real = real',
                         y_growth = g * 100\<rparr>])))"

text \<open>
  SIP: the inner loop \<^verbatim>\<open>for month in range(1, 13)\<close>, here counted down from the number of
  months left. Each month adds the contribution and then multiplies by
  \<^verbatim>\<open>(1 + rate) ** (1 / 12)\<close>.
\<close>

fun sip_months :: "nat \<Rightarrow> real \<Rightarrow> real \<Rightarrow> complex \<Rightarrow> failure + complex" where
  "sip_months 0 monthly_investment rate nominal = Inr nominal"
| "sip_months (Suc k) monthly_investment rate nominal =
     (case py_pow (of_real (1 + rate)) (1 / 12) of
        Inl e \<Rightarrow> Inl e
      | Inr f \<Rightarrow>
          sip_months k monthly_investment rate ((nominal + of_real monthly_investment) * f))"

fun sip_loop ::
  "real \<Rightarrow> real \<Rightarrow> real \<Rightarrow> int list \<Rightarrow> complex \<times> year_row list
     \<Rightarrow> failure + (complex \<times> year_row list)" where
  "sip_loop principal' rate inflation [] st = Inr st"
| "sip_loop principal' rate inflation (year # ys) (nominal, yearly_data) =
     (case sip_months 12 principal' rate nominal of
        Inl e \<Rightarrow> Inl e
      | Inr nominal' \<Rightarrow>
          (case c_div nominal' (of_real ((1 + inflation) ^ nat year)) of
             Inl e \<Rightarrow> Inl e
           | Inr real' \<Rightarrow>
               (case c_div nominal' (of_real (principal' * 12 * of_int year)) of
                  Inl e \<Rightarrow> Inl e
                | Inr q \<Rightarrow>
                    sip_loop principal' rate inflation ys
                      (nominal',
                       yearly_data @
                         [\<lparr>y_year = year, y_nominal = nominal', y_real = real',
                           y_growth = (q - 1) * 100\<rparr>]))))"

definition calculate_investment_growth ::
  "real \<Rightarrow> int \<Rightarrow> real \<Rightarrow> string \<Rightarrow> real \<Rightarrow> failure + growth_result" where
  "calculate_investment_growth principal' years rate mode inflation =
     (case (if mode = ''lumpsum''
            then lumpsum_loop principal' rate inflation [1..years] (of_real principal', [])
            else sip_loop principal' rate inflation [1..years] (0, [])) of
        Inl e \<Rightarrow> Inl e
      | Inr (nominal, yearly_data) \<Rightarrow>
          (let final_nominal =
                 (if yearly_data \<noteq> [] then y_nominal (last yearly_data) else of_real principal');
               final_real =
                 (if yearly_data \<noteq> [] then y_real (last yearly_data) else of_real principal')
           in if years > 0 then
                (case c_div final_nominal (of_real principal') of
                   Inl e \<Rightarrow> Inl e
                 | Inr b \<Rightarrow>
                     (case py_pow b (1 / of_int years) of
                        Inl e \<Rightarrow> Inl e
                      | Inr c \<Rightarrow>
                          Inr \<lparr>final_nominal = final_nominal, final_real = final_real,
                               yearly = yearly_data, cagr = (c - 1) * 100\<rparr>))
              else
                Inr \<lparr>final_nominal = final_nominal, final_real = final_real,
                     yearly = yearly_data, cagr = 0\<rparr>))"

text \<open>
  The direct recurrence the SIP figures are compared with: \<open>n\<close> times, add the
  contribution \<open>c\<close> and multiply by the monthly factor \<open>f\<close>, starting from \<open>0\<close>.
\<close>

definition sip_recurrence :: "complex \<Rightarrow> complex \<Rightarrow> nat \<Rightarrow> complex" where
  "sip_recurrence c f n = ((\<lambda>v. (v + c) * f) ^^ n) 0"

text \<open>
  The value of \<^verbatim>\<open>(1 + rate) ** (1 / 12)\<close>: the real twelfth root for \<open>1 + rate \<ge> 0\<close>, and
  for \<open>1 + rate < 0\<close> the twelfth root of \<open>\<bar>1 + rate\<bar>\<close> turned by the angle \<open>pi / 12\<close>.
\<close>

definition monthly_factor :: "real \<Rightarrow> complex" where
  "monthly_factor rate =
     (if 0 \<le> 1 + rate then of_real ((1 + rate) powr (1 / 12))
      else of_real ((- (1 + rate)) powr (1 / 12)) * cis (pi / 12))"

text \<open>The row the SIP loop appends for a year.\<close>

definition sip_row :: "real \<Rightarrow> complex \<Rightarrow> real \<Rightarrow> int \<Rightarrow> year_row" where
  "sip_row c f inflation y =
     \<lparr>y_year = y,
      y_nominal = sip_recurrence (of_real c) f (12 * nat y),
      y_real = sip_recurrence (of_real c) f (12 * nat y) / of_real ((1 + inflation) ^ nat y),
      y_growth =
        (sip_recurrence (of_real c) f (12 * nat y) / of_real (c * 12 * of_int y) - 1) * 100\<rparr>"

section \<open>Financial health score\<close>

record component =
  ratio :: real
  score :: real
  ideal :: real

record health_result =
  total_score :: real
  c_savings :: component
  c_investments :: component
  c_debt :: component
  c_insurance :: component
  c_expenses :: component

text \<open>
  Every division sits behind \<^verbatim>\<open>if income > 0 else 0\<close>, and for \<open>income > 0\<close> each divisor
  (\<open>income\<close>, \<open>income * max (age - 25) 5\<close>, \<open>income * 0.5\<close>, \<open>income * 10\<close>) and the
  constants \<open>0.2\<close>, \<open>2\<close>, \<open>0.4\<close> are nonzero, so no division can raise and the function is
  total.
\<close>

definition calculate_financial_health ::
  "real \<Rightarrow> real \<Rightarrow> real \<Rightarrow> real \<Rightarrow> real \<Rightarrow> real \<Rightarrow> real \<Rightarrow> health_result" where
  "calculate_financial_health income expenses savings investments liabilities
       insurance_cover age =
     (let savings_ratio = (if income > 0 then savings / income else 0);
          savings_score = min (savings_ratio / 0.2) 1 * 25;
          investment_ratio =
            (if income > 0 then investments / (income * max (age - 25) 5) else 0);
          investment_score = min (investment_ratio / 2) 1 * 25;
          debt_ratio = (if income > 0 then liabilities / (income * 0.5) else 0);
          debt_score = (1 - min debt_ratio 1) * 20;
          insurance_adequacy = (if income > 0 then insurance_cover / (income * 10) else 0);
          insurance_score = min insurance_adequacy 1 * 15;
          expense_ratio = (if income > 0 then expenses / income else 0);
          excess_expense = max (expense_ratio - 0.6) 0;
          expense_score = (1 - min (excess_expense / 0.4) 1) * 15;
          total_score =
            savings_score + investment_score + debt_score + insurance_score + expense_score
      in \<lparr>total_score = min (max total_score 0) 100,
          c_savings = \<lparr>ratio = savings_ratio, score = savings_score, ideal = 0.2\<rparr>,
          c_investments = \<lparr>ratio = investment_ratio, score = investment_score, ideal = 2\<rparr>,
          c_debt = \<lparr>ratio = debt_ratio, score = debt_score, ideal = 1.0\<rparr>,
          c_insurance = \<lparr>ratio = insurance_adequacy, score = insurance_score, ideal = 1.0\<rparr>,
          c_expenses = \<lparr>ratio = expense_ratio, score = expense_score, ideal = 0.6\<rparr>\<rparr>)"

section \<open>Budget optimizer\<close>

text \<open>
  \<^verbatim>\<open>optimize_budget\<close> builds a linear program with the PuLP library, calls
  \<^verbatim>\<open>prob.solve()\<close> and returns \<^verbatim>\<open>{var.name: var.varValue for var in vars.values()}\<close>.
  The library is not part of the repository. Its data is modelled as far as the function
  uses it, and the solver itself is a parameter of the model: a function from the problem
  either to the error its run raises or to the status it reports and the value it leaves
  in each variable (\<open>None\<close> when it leaves none), the variables being numbered in the order
  they were created.
\<close>

record spending =
  sp_amount :: real
  sp_happiness :: real
  sp_essential :: bool

datatype lp_status = Optimal | Not_Solved | Infeasible | Unbounded | Undefined

record lp_variable =
  var_name :: "string option"
  lowBound :: real
  upBound :: real

text \<open>A linear expression: pairs of a variable's number and its coefficient.\<close>

type_synonym lin_expr = "(nat \<times> real) list"

datatype lp_sense = LE | GE

record lp_constraint =
  con_expr :: lin_expr
  con_sense :: lp_sense
  con_rhs :: real

record lp_problem =
  prob_variables :: "lp_variable list"
  prob_objective :: "lin_expr \<times> real"
  prob_constraints :: "lp_constraint list"

type_synonym lp_solver =
  "lp_problem \<Rightarrow> failure + (lp_status \<times> (nat \<Rightarrow> real option))"

text \<open>
  PuLP stores a variable's name with each of the characters \<^verbatim>\<open>-+[] ->/\<close> replaced by an
  underscore, and stores no name (\<^verbatim>\<open>None\<close>) for the empty string; \<^verbatim>\<open>var.name\<close> reads what
  is stored.
\<close>

definition illegal_chars :: string where
  "illegal_chars = ''-+[] ->/''"

definition lp_name :: "string \<Rightarrow> string option" where
  "lp_name s =
     (if s = [] then None
      else Some (map (\<lambda>c. if c \<in> set illegal_chars then CHR ''_'' else c) s))"

text \<open>
  \<^verbatim>\<open>cat.lower()\<close> on the bytes of the name: the letters \<open>A\<close> to \<open>Z\<close> are mapped to \<open>a\<close> to
  \<open>z\<close>, every other byte is kept. Python also lower-cases letters outside ASCII; none of
  them turns into one of the letters of \<^verbatim>\<open>rent\<close> or \<^verbatim>\<open>utilities\<close>, the only strings the
  result is compared with.
\<close>

definition lower_char :: "char \<Rightarrow> char" where
  "lower_char c =
     (case map_of (zip ''ABCDEFGHIJKLMNOPQRSTUVWXYZ'' ''abcdefghijklmnopqrstuvwxyz'') c of
        Some l \<Rightarrow> l
      | None \<Rightarrow> c)"

definition lower :: "string \<Rightarrow> string" where
  "lower s = map lower_char s"

definition make_variable :: "real \<Rightarrow> string \<times> spending \<Rightarrow> lp_variable" where
  "make_variable risk_appetite =
     (\<lambda>(cat, data).
        \<lparr>var_name = lp_name cat,
         lowBound = sp_amount data * (if risk_appetite > 0.5 then 0.7 else 0.9),
         upBound = sp_amount data * (if risk_appetite > 0.5 then 1.3 else 1.1)\<rparr>)"

text \<open>
  The objective: the sum, over the categories in order, of
  \<^verbatim>\<open>(happiness / amount) * var * risk_appetite + (min_savings / income) * (1 - risk_appetite)\<close>,
  as the coefficients of the variables and the constant. Either division can raise.
\<close>

fun objective_terms ::
  "real \<Rightarrow> real \<Rightarrow> real \<Rightarrow> nat \<Rightarrow> (string \<times> spending) list
     \<Rightarrow> failure + (lin_expr \<times> real)" where
  "objective_terms income min_savings risk_appetite i [] = Inr ([], 0)"
| "objective_terms income min_savings risk_appetite i ((cat, data) # rest) =
     (case py_div (sp_happiness data) (sp_amount data) of
        Inl e \<Rightarrow> Inl e
      | Inr hpr \<Rightarrow>
          (case py_div min_savings income of
             Inl e \<Rightarrow> Inl e
           | Inr sv \<Rightarrow>
               (case objective_terms income min_savings risk_appetite (Suc i) rest of
                  Inl e \<Rightarrow> Inl e
                | Inr (coeffs, const) \<Rightarrow>
                    Inr ((i, hpr * risk_appetite) # coeffs,
                         sv * (1 - risk_appetite) + const))))"

definition compare :: "real \<Rightarrow> lp_sense \<Rightarrow> real \<Rightarrow> bool" where
  "compare a s b = (case s of LE \<Rightarrow> a \<le> b | GE \<Rightarrow> a \<ge> b)"

text \<open>
  \<^verbatim>\<open>prob += sum(vars.values()) <= bound\<close> (or \<^verbatim>\<open>>=\<close>). With at least one variable the sum
  is a linear expression and the comparison is a constraint. With no variable the sum is
  the number 0 and the comparison is a Python boolean: PuLP ignores \<^verbatim>\<open>True\<close> and raises
  \<^verbatim>\<open>TypeError\<close> on \<^verbatim>\<open>False\<close>.
\<close>

definition total_constraint :: "nat \<Rightarrow> lp_sense \<Rightarrow> real \<Rightarrow> failure + lp_constraint list" where
  "total_constraint n s b =
     (if n = 0 then (if compare 0 s b then Inr [] else Inl TypeError)
      else Inr [\<lparr>con_expr = map (\<lambda>i. (i, 1)) [0..<n], con_sense = s, con_rhs = b\<rparr>])"

text \<open>The loop that adds \<^verbatim>\<open>vars[cat] >= data['amount'] * 0.9\<close> for the essential names.\<close>

definition essential_constraints :: "(string \<times> spending) list \<Rightarrow> lp_constraint list" where
  "essential_constraints spending_data =
     concat (map (\<lambda>(i, (cat, data)).
                    if lower cat \<in> set [''rent'', ''utilities'']
                    then [\<lparr>con_expr = [(i, 1)], con_sense = GE,
                           con_rhs = sp_amount data * 0.9\<rparr>]
                    else [])
               (enumerate 0 spending_data))"

definition build_problem ::
  "real \<Rightarrow> (string \<times> spending) list \<Rightarrow> real \<Rightarrow> real \<Rightarrow> failure + lp_problem" where
  "build_problem income spending_data min_savings risk_appetite =
     (let vars = map (make_variable risk_appetite) spending_data
      in case objective_terms income min_savings risk_appetite 0 spending_data of
           Inl e \<Rightarrow> Inl e
         | Inr obj \<Rightarrow>
             (case total_constraint (length vars) LE (income - min_savings) of
                Inl e \<Rightarrow> Inl e
              | Inr c1 \<Rightarrow>
                  (case total_constraint (length vars) GE (income * 0.4) of
                     Inl e \<Rightarrow> Inl e
                   | Inr c2 \<Rightarrow>
                       Inr \<lparr>prob_variables = vars, prob_objective = obj,
                            prob_constraints =
                              c1 @ c2 @ essential_constraints spending_data\<rparr>)))"

text \<open>
  A Python dictionary built from key-value pairs in order: a key seen again keeps its
  place and takes the later value.
\<close>

definition dict_of :: "('k \<times> 'v) list \<Rightarrow> ('k \<times> 'v) list" where
  "dict_of kvs = foldl (\<lambda>d (k, v). AList.update k v d) [] kvs"

definition optimize_budget ::
  "lp_solver \<Rightarrow> real \<Rightarrow> (string \<times> spending) list \<Rightarrow> real \<Rightarrow> real
     \<Rightarrow> failure + (string option \<times> real option) list" where
  "optimize_budget solve income spending_data min_savings risk_appetite =
     (case build_problem income spending_data min_savings risk_appetite of
        Inl e \<Rightarrow> Inl e
      | Inr prob \<Rightarrow>
          (case solve prob of
             Inl e \<Rightarrow> Inl e
           | Inr (status, varValue) \<Rightarrow>
               Inr (dict_of (map (\<lambda>(i, v). (var_name v, varValue i))
                                  (enumerate 0 (prob_variables prob))))))"

subsection \<open>What a solution of the problem is\<close>

definition expr_value :: "lin_expr \<Rightarrow> (nat \<Rightarrow> real) \<Rightarrow> real" where
  "expr_value e x = sum_list (map (\<lambda>(i, c). c * x i) e)"

definition holds :: "lp_constraint \<Rightarrow> (nat \<Rightarrow> real) \<Rightarrow> bool" where
  "holds c x = compare (expr_value (con_expr c) x) (con_sense c) (con_rhs c)"

text \<open>An assignment is feasible when it respects every bound and every constraint.\<close>

definition feasible :: "lp_problem \<Rightarrow> (nat \<Rightarrow> real) \<Rightarrow> bool" where
  "feasible p x =
     (list_all (\<lambda>(i, v). lowBound v \<le> x i \<and> x i \<le> upBound v)
        (enumerate 0 (prob_variables p)) \<and>
      list_all (\<lambda>c. holds c x) (prob_constraints p))"

definition value_or_zero :: "real option \<Rightarrow> real" where
  "value_or_zero w = (case w of None \<Rightarrow> 0 | Some v \<Rightarrow> v)"

text \<open>
  The solver solved the problem: its run raises no error, it reports \<open>Optimal\<close>, it left a
  value in every variable, and these values are feasible.
\<close>

definition solved :: "lp_solver \<Rightarrow> lp_problem \<Rightarrow> bool" where
  "solved solve p =
     (case solve p of
        Inl e \<Rightarrow> False
      | Inr (status, varValue) \<Rightarrow>
          status = Optimal \<and>
          list_all (\<lambda>i. varValue i \<noteq> None) [0..<length (prob_variables p)] \<and>
          feasible p (\<lambda>i. value_or_zero (varValue i)))"

text \<open>
  A solver run given by its outcome: the status it reports and the values it leaves in the
  variables, in order. The concrete instances below use the outcomes of CBC, the solver
  PuLP calls by default.
\<close>

definition solver_outcome :: "lp_status \<Rightarrow> real list \<Rightarrow> lp_solver" where
  "solver_outcome status vals p =
     Inr (status, \<lambda>i. if i < length vals then Some (vals ! i) else None)"

definition rent_only :: "(string \<times> spending) list" where
  "rent_only = [(''Rent'', \<lparr>sp_amount = 500, sp_happiness = 6, sp_essential = True\<rparr>)]"

definition rent_and_food :: "(string \<times> spending) list" where
  "rent_and_food =
     [(''Rent'', \<lparr>sp_amount = 15000, sp_happiness = 6, sp_essential = True\<rparr>),
      (''Food'', \<lparr>sp_amount = 8000, sp_happiness = 8, sp_essential = True\<rparr>)]"

text \<open>The sum of the allocations of a returned mapping.\<close>

definition alloc_total :: "(string option \<times> real option) list \<Rightarrow> real" where
  "alloc_total alloc = sum_list (map (\<lambda>(k, w). value_or_zero w) alloc)"

text \<open>The assignment that gives every variable the same value.\<close>

definition everywhere :: "real \<Rightarrow> nat \<Rightarrow> real" where
  "everywhere v i = v"

section \<open>Income tax in binary floating point\<close>

text \<open>
  The real-valued \<^verbatim>\<open>calculate_income_tax\<close> above computes \<open>tax + tax * 0.04\<close> exactly. Python
  computes it in binary64 floating point, where every operation returns the exact result
  rounded to the nearest number with a 53-bit significand, ties going to the even
  significand. The following is that arithmetic for the normal range (no overflow to
  infinity and no subnormal numbers; both are far from the amounts of this program).
  Python integers below \<open>2 ^ 53\<close> in magnitude are such numbers, and their sums,
  differences and products below that bound are rounded to themselves.
\<close>

text \<open>The number of binary digits of a natural number.\<close>

fun bit_length :: "nat \<Rightarrow> nat" where
  "bit_length n = (if n = 0 then 0 else Suc (bit_length (n div 2)))"

declare bit_length.simps [simp del]

text \<open>
  For \<open>x > 0\<close>, the exponent \<open>n\<close> with \<open>2 ^ (n - 1) \<le> x < 2 ^ n\<close>.
\<close>

definition binary_exponent :: "real \<Rightarrow> int" where
  "binary_exponent x =
     (if 1 \<le> x then int (bit_length (nat \<lfloor>x\<rfloor>))
      else (let k = int (bit_length (nat \<lfloor>1 / x\<rfloor>))
            in if 1 \<le> x * 2 powi (k - 1) then 2 - k else 1 - k))"

text \<open>Rounding to the nearest integer, ties to the even one.\<close>

definition round_half_even :: "real \<Rightarrow> int" where
  "round_half_even m =
     (let f = \<lfloor>m\<rfloor>; r = m - of_int f
      in if r < 1 / 2 then f else if r > 1 / 2 then f + 1
         else if even f then f else f + 1)"

text \<open>
  Rounding to binary64: scale \<open>\<bar>x\<bar>\<close> into \<open>[2 ^ 52, 2 ^ 53)\<close>, round to an integer, scale back.
\<close>

definition fl :: "real \<Rightarrow> real" where
  "fl x =
     (if x = 0 then 0
      else (let n = binary_exponent \<bar>x\<bar>;
                q = round_half_even (\<bar>x\<bar> * 2 powi (53 - n))
            in sgn x * of_int q * 2 powi (n - 53)))"

text \<open>The four operations of Python floats.\<close>

definition fadd :: "real \<Rightarrow> real \<Rightarrow> real" where "fadd a b = fl (a + b)"
definition fsub :: "real \<Rightarrow> real \<Rightarrow> real" where "fsub a b = fl (a - b)"
definition fmul :: "real \<Rightarrow> real \<Rightarrow> real" where "fmul a b = fl (a * b)"
definition fdiv :: "real \<Rightarrow> real \<Rightarrow> real" where "fdiv a b = fl (a / b)"

text \<open>
  \<^verbatim>\<open>calculate_income_tax\<close> once more, every arithmetic operation now a float operation.
  The decimal literals of the slab tables and \<^verbatim>\<open>0.04\<close> stand for the nearest binary64
  numbers.
\<close>

fun slab_loop_fl ::
  "real \<Rightarrow> (bound \<times> real) list \<Rightarrow> real \<times> bound \<times> slab_detail list
     \<Rightarrow> real \<times> bound \<times> slab_detail list" where
  "slab_loop_fl ti [] st = st"
| "slab_loop_fl ti ((limit, rate) # rest) (tax, prev_limit, slab_details) =
     (case prev_limit of
        Fin p \<Rightarrow>
          if ti > p then
            (let taxable = fsub (min_bound ti limit) p;
                 slab_tax = fmul taxable rate
             in slab_loop_fl ti rest
                  (fadd tax slab_tax, limit,
                   slab_details @
                     [\<lparr>slab_from = p, slab_to = limit, slab_rate = fmul rate 100,
                       slab_amount = taxable, slab_tax = slab_tax\<rparr>]))
          else slab_loop_fl ti rest (tax, prev_limit, slab_details)
      | Inf \<Rightarrow> slab_loop_fl ti rest (tax, prev_limit, slab_details))"

definition calculate_income_tax_fl :: "real \<Rightarrow> string \<Rightarrow> real \<Rightarrow> tax_result" where
  "calculate_income_tax_fl income regime deductions =
     (let taxable_income = max (fsub income deductions) 0;
          slabs = map (\<lambda>(limit, rate). (limit, fl rate))
                    (if regime = ''new'' then new_regime_slabs else old_regime_slabs);
          (tax, prev_limit, slab_details) = slab_loop_fl taxable_income slabs (0, Fin 0, []);
          cess = fmul tax (fl 0.04);
          total_tax = fadd tax cess
      in \<lparr>total_tax = total_tax, base_tax = tax, cess = cess,
          effective_rate = (if income > 0 then fmul (fdiv total_tax income) 100 else 0),
          slabs = slab_details, taxable_income = taxable_income\<rparr>)"

section \<open>Income tax: proofs\<close>

subsection \<open>The loop appends exactly the reached entries\<close>

lemma slab_loop_Inf: "slab_loop ti tbl (tax, Inf, ds) = (tax, Inf, ds)"
  by (induction tbl) auto

lemma slab_loop_le: "ti \<le> p \<Longrightarrow> slab_loop ti tbl (tax, Fin p, ds) = (tax, Fin p, ds)"
  by (induction tbl) auto

lemma slab_loop_reached:
  "\<exists>prev. slab_loop ti tbl (tax, Fin p, ds) =
     (tax + sum_list (map slab_tax (reached ti p tbl)), prev, ds @ reached ti p tbl)"
proof (induction tbl arbitrary: tax p ds)
  case Nil
  then show ?case by simp
next
  case (Cons a tbl)
  obtain limit rate where a: "a = (limit, rate)" by (cases a)
  show ?case
  proof (cases "ti > p")
    case False
    then show ?thesis using slab_loop_le [of ti p] by (simp add: a)
  next
    case True
    show ?thesis
    proof (cases limit)
      case (Fin q)
      from Cons.IH [of "tax + (min ti q - p) * rate" q
          "ds @ [\<lparr>slab_from = p, slab_to = Fin q, slab_rate = rate * 100,
                   slab_amount = min ti q - p, slab_tax = (min ti q - p) * rate\<rparr>]"]
        True Fin a
      show ?thesis by (auto simp: Let_def add.assoc)
    next
      case Inf
      then show ?thesis using True a by (simp add: Let_def slab_loop_Inf)
    qed
  qed
qed

lemma reached_amounts:
  "ascending p tbl \<Longrightarrow> sum_list (map slab_amount (reached ti p tbl)) = max (ti - p) 0"
proof (induction p tbl rule: ascending.induct)
  case (1 p)
  then show ?case by simp
next
  case (2 p q r rest)
  then show ?case by auto
next
  case (3 p r rest)
  then show ?case by auto
qed

lemma reached_from_ge:
  "ascending p tbl \<Longrightarrow> e \<in> set (reached ti p tbl) \<Longrightarrow> p \<le> slab_from e \<and> slab_from e < ti \<and> 0 < slab_amount e"
proof (induction p tbl rule: ascending.induct)
  case (1 p)
  then show ?case by simp
next
  case (2 p q r rest)
  then show ?case by (auto split: if_splits)
next
  case (3 p r rest)
  then show ?case by (auto split: if_splits)
qed

lemma reached_contiguous:
  "ascending p tbl \<Longrightarrow> contiguous_from p (reached ti p tbl)"
  by (induction p tbl rule: ascending.induct) auto

lemma reached_cover:
  "ascending p tbl \<Longrightarrow> p < x \<Longrightarrow> x \<le> ti \<Longrightarrow> \<exists>!e. e \<in> set (reached ti p tbl) \<and> in_slab x e"
proof (induction p tbl rule: ascending.induct)
  case (1 p)
  then show ?case by simp
next
  case (2 p q r rest)
  let ?e = "\<lparr>slab_from = p, slab_to = Fin q, slab_rate = r * 100,
         slab_amount = min_bound ti (Fin q) - p,
         slab_tax = (min_bound ti (Fin q) - p) * r\<rparr>"
  from 2 have asc: "ascending q rest" and pq: "p < q" by auto
  from 2 have red: "reached ti p ((Fin q, r) # rest) = ?e # reached ti q rest" by simp
  show ?case
  proof (cases "x \<le> q")
    case True
    have "\<And>e'. e' \<in> set (reached ti q rest) \<Longrightarrow> \<not> in_slab x e'"
      using reached_from_ge [OF asc] True by (fastforce simp: in_slab_def)
    moreover have "in_slab x ?e" using True 2 by (simp add: in_slab_def)
    ultimately show ?thesis unfolding red by auto
  next
    case False
    then have "\<exists>!e. e \<in> set (reached ti q rest) \<and> in_slab x e"
      using 2 by auto
    moreover have "\<not> in_slab x ?e" using False by (simp add: in_slab_def)
    ultimately show ?thesis unfolding red by auto
  qed
next
  case (3 p r rest)
  then show ?case by (auto simp: in_slab_def)
qed

lemma reached_prefix:
  "map (\<lambda>e. (slab_to e, slab_rate e)) (reached ti p tbl) =
     take (length (reached ti p tbl)) (map (\<lambda>(l, rt). (l, rt * 100)) tbl)"
proof (induction tbl arbitrary: p)
  case Nil
  then show ?case by simp
next
  case (Cons a tbl)
  then show ?case by (cases a) (auto split: bound.splits)
qed

lemma asc_new: "ascending 0 new_regime_slabs"
  by (simp add: new_regime_slabs_def)

lemma asc_old: "ascending 0 old_regime_slabs"
  by (simp add: old_regime_slabs_def)

subsection \<open>The tax is non-negative and monotone\<close>

lemma reached_tax_nonneg:
  "ascending p tbl \<Longrightarrow> rates_nonneg tbl \<Longrightarrow> 0 \<le> sum_list (map slab_tax (reached ti p tbl))"
proof (induction p tbl rule: ascending.induct)
  case (1 p)
  then show ?case by simp
next
  case (2 p q r rest)
  then show ?case by (auto simp: rates_nonneg_def)
next
  case (3 p r rest)
  then show ?case by (auto simp: rates_nonneg_def)
qed

lemma reached_tax_mono:
  "ascending p tbl \<Longrightarrow> rates_nonneg tbl \<Longrightarrow> t1 \<le> t2 \<Longrightarrow>
     sum_list (map slab_tax (reached t1 p tbl)) \<le> sum_list (map slab_tax (reached t2 p tbl))"
proof (induction p tbl rule: ascending.induct)
  case (1 p)
  then show ?case by simp
next
  case (2 p q r rest)
  then have r: "0 \<le> r" and rn: "rates_nonneg rest" and asc: "ascending q rest" and pq: "p < q"
    by (auto simp: rates_nonneg_def)
  show ?case
  proof (cases "t1 > p")
    case False
    then have "sum_list (map slab_tax (reached t1 p ((Fin q, r) # rest))) = 0" by simp
    moreover have "ascending p ((Fin q, r) # rest)" using asc pq by simp
    ultimately show ?thesis using reached_tax_nonneg [of p "(Fin q, r) # rest" t2] 2 by simp
  next
    case True
    then have t2: "t2 > p" using 2 by simp
    have "(min t1 q - p) * r \<le> (min t2 q - p) * r"
      using r 2(4) by (intro mult_right_mono) auto
    moreover have "sum_list (map slab_tax (reached t1 q rest)) \<le> sum_list (map slab_tax (reached t2 q rest))"
      using 2 asc rn by simp
    ultimately show ?thesis using True t2 by simp
  qed
next
  case (3 p r rest)
  then have r: "0 \<le> r" by (simp add: rates_nonneg_def)
  have "t1 > p \<Longrightarrow> (t1 - p) * r \<le> (t2 - p) * r"
    using r 3 by (intro mult_right_mono) auto
  moreover have "\<not> t1 > p \<Longrightarrow> t2 > p \<Longrightarrow> 0 \<le> (t2 - p) * r"
    using r by simp
  ultimately show ?case using 3 by auto
qed

lemma slab_loop_start:
  "\<exists>prev. slab_loop ti tbl (0, Fin 0, []) =
     (sum_list (map slab_tax (reached ti 0 tbl)), prev, reached ti 0 tbl)"
  using slab_loop_reached [of ti tbl 0 0 "[]"] by simp

lemma tax_base:
  "base_tax (calculate_income_tax income regime deductions) =
     sum_list (map slab_tax (reached (max (income - deductions) 0) 0
       (if regime = ''new'' then new_regime_slabs else old_regime_slabs)))"
proof -
  obtain prev where "slab_loop (max (income - deductions) 0)
       (if regime = ''new'' then new_regime_slabs else old_regime_slabs) (0, Fin 0, []) =
     (sum_list (map slab_tax (reached (max (income - deductions) 0) 0
         (if regime = ''new'' then new_regime_slabs else old_regime_slabs))), prev,
      reached (max (income - deductions) 0) 0
         (if regime = ''new'' then new_regime_slabs else old_regime_slabs))"
    using slab_loop_start by blast
  then show ?thesis by (simp add: calculate_income_tax_def Let_def)
qed

lemma tax_slabs:
  "slabs (calculate_income_tax income regime deductions) =
     reached (max (income - deductions) 0) 0
       (if regime = ''new'' then new_regime_slabs else old_regime_slabs)"
proof -
  obtain prev where "slab_loop (max (income - deductions) 0)
       (if regime = ''new'' then new_regime_slabs else old_regime_slabs) (0, Fin 0, []) =
     (sum_list (map slab_tax (reached (max (income - deductions) 0) 0
         (if regime = ''new'' then new_regime_slabs else old_regime_slabs))), prev,
      reached (max (income - deductions) 0) 0
         (if regime = ''new'' then new_regime_slabs else old_regime_slabs))"
    using slab_loop_start by blast
  then show ?thesis by (simp add: calculate_income_tax_def Let_def)
qed

lemma tax_taxable:
  "taxable_income (calculate_income_tax income regime deductions) = max (income - deductions) 0"
  by (simp add: calculate_income_tax_def Let_def split: prod.splits)

lemma tax_total:
  "total_tax (calculate_income_tax income regime deductions) =
     base_tax (calculate_income_tax income regime deductions) * 1.04"
  by (simp add: calculate_income_tax_def Let_def split: prod.splits)

lemma tax_cess:
  "cess (calculate_income_tax income regime deductions) =
     base_tax (calculate_income_tax income regime deductions) * 0.04"
  by (simp add: calculate_income_tax_def Let_def split: prod.splits)

lemma tax_rate:
  "effective_rate (calculate_income_tax income regime deductions) =
     (if income > 0 then total_tax (calculate_income_tax income regime deductions) / income * 100 else 0)"
  by (simp add: calculate_income_tax_def Let_def split: prod.splits)

lemma asc_table: "ascending 0 (if regime = ''new'' then new_regime_slabs else old_regime_slabs)"
  by (simp add: asc_new asc_old)

lemma nonneg_table: "rates_nonneg (if regime = ''new'' then new_regime_slabs else old_regime_slabs)"
  by (simp add: rates_nonneg_def new_regime_slabs_def old_regime_slabs_def)

subsection \<open>The claims about the income tax\<close>

text \<open>
  Claim C5. Whatever the income, the deductions and the regime, the slab breakdown of
  \<^verbatim>\<open>calculate_income_tax\<close> is ordered and contiguous from 0, every amount in
  \<open>(0, taxable_income]\<close> lies in the band of exactly one entry (no gap, no overlap), the
  taxed amounts add up to the taxable income \<open>max (income - deductions) 0\<close>, every entry
  belongs to a slab that the taxable income reaches (it starts below the taxable income and
  taxes a positive amount), and the entries are an initial segment of the regime's table.
\<close>

theorem slab_breakdown_partition:
  "let r = calculate_income_tax income regime deductions;
       tbl = (if regime = ''new'' then new_regime_slabs else old_regime_slabs)
   in taxable_income r = max (income - deductions) 0 \<and>
      contiguous_from 0 (slabs r) \<and>
      (\<forall>x. 0 < x \<and> x \<le> taxable_income r \<longrightarrow> (\<exists>!e. e \<in> set (slabs r) \<and> in_slab x e)) \<and>
      sum_list (map slab_amount (slabs r)) = taxable_income r \<and>
      (\<forall>e \<in> set (slabs r). slab_from e < taxable_income r \<and> 0 < slab_amount e) \<and>
      map (\<lambda>e. (slab_to e, slab_rate e)) (slabs r) =
        take (length (slabs r)) (map (\<lambda>(l, rt). (l, rt * 100)) tbl)"
proof -
  let ?ti = "max (income - deductions) 0"
  let ?tbl = "if regime = ''new'' then new_regime_slabs else old_regime_slabs"
  let ?r = "calculate_income_tax income regime deductions"
  have sl: "slabs ?r = reached ?ti 0 ?tbl" by (rule tax_slabs)
  have ti: "taxable_income ?r = ?ti" by (rule tax_taxable)
  have asc: "ascending 0 ?tbl" by (rule asc_table)
  have c1: "contiguous_from 0 (slabs ?r)"
    unfolding sl by (rule reached_contiguous [OF asc])
  have c2: "\<forall>x. 0 < x \<and> x \<le> taxable_income ?r \<longrightarrow> (\<exists>!e. e \<in> set (slabs ?r) \<and> in_slab x e)"
    unfolding sl ti using reached_cover [OF asc] by blast
  have c3: "sum_list (map slab_amount (slabs ?r)) = taxable_income ?r"
    unfolding sl ti using reached_amounts [OF asc, of ?ti] by simp
  have c4: "\<forall>e \<in> set (slabs ?r). slab_from e < taxable_income ?r \<and> 0 < slab_amount e"
    unfolding sl ti using reached_from_ge [OF asc] by blast
  have c5: "map (\<lambda>e. (slab_to e, slab_rate e)) (slabs ?r) =
        take (length (slabs ?r)) (map (\<lambda>(l, rt). (l, rt * 100)) ?tbl)"
    unfolding sl by (rule reached_prefix)
  from ti c1 c2 c3 c4 c5 show ?thesis unfolding Let_def by blast
qed

lemma tax_example_slabs:
  "slabs (calculate_income_tax 600000 ''new'' 50000) =
     [\<lparr>slab_from = 0, slab_to = Fin 250000, slab_rate = 0, slab_amount = 250000, slab_tax = 0\<rparr>,
      \<lparr>slab_from = 250000, slab_to = Fin 500000, slab_rate = 5, slab_amount = 250000, slab_tax = 12500\<rparr>,
      \<lparr>slab_from = 500000, slab_to = Fin 750000, slab_rate = 10, slab_amount = 50000, slab_tax = 5000\<rparr>]"
  by (simp add: calculate_income_tax_def new_regime_slabs_def Let_def)

theorem slab_breakdown_partition_witness:
  "length (slabs (calculate_income_tax 600000 ''new'' 50000)) = 3 \<and>
   taxable_income (calculate_income_tax 600000 ''new'' 50000) = 550000 \<and>
   (0 < (300000::real) \<and> (300000::real) \<le> 550000) \<and>
   (\<exists>!e. e \<in> set (slabs (calculate_income_tax 600000 ''new'' 50000)) \<and> in_slab 300000 e) \<and>
   sum_list (map slab_amount (slabs (calculate_income_tax 600000 ''new'' 50000))) = 550000 \<and>
   slab_from (last (slabs (calculate_income_tax 600000 ''new'' 50000))) < 550000"
proof -
  let ?r = "calculate_income_tax 600000 ''new'' 50000"
  note th = slab_breakdown_partition [of 600000 "''new''" 50000, unfolded Let_def]
  have ti: "taxable_income ?r = 550000" using th by simp
  have len: "length (slabs ?r) = 3" by (simp add: tax_example_slabs)
  have ex: "\<exists>!e. e \<in> set (slabs ?r) \<and> in_slab 300000 e"
  proof -
    from th have "\<forall>x. 0 < x \<and> x \<le> taxable_income ?r \<longrightarrow> (\<exists>!e. e \<in> set (slabs ?r) \<and> in_slab x e)"
      by blast
    then have "0 < (300000::real) \<and> 300000 \<le> taxable_income ?r \<longrightarrow> (\<exists>!e. e \<in> set (slabs ?r) \<and> in_slab 300000 e)"
      by (rule spec)
    then show ?thesis by (simp add: ti)
  qed
  have s: "sum_list (map slab_amount (slabs ?r)) = 550000" using th ti by simp
  have "last (slabs ?r) \<in> set (slabs ?r)" using len by (intro last_in_set) auto
  then have f: "slab_from (last (slabs ?r)) < 550000" using th ti by simp
  from ti len ex s f show ?thesis by simp
qed

text \<open>
  Claim C10. For a fixed regime and fixed deductions the base tax and the total tax do
  not decrease when the income grows.
\<close>

theorem income_tax_monotone:
  "income1 \<le> income2 \<Longrightarrow>
     base_tax (calculate_income_tax income1 regime deductions)
       \<le> base_tax (calculate_income_tax income2 regime deductions) \<and>
     total_tax (calculate_income_tax income1 regime deductions)
       \<le> total_tax (calculate_income_tax income2 regime deductions)"
proof -
  assume le: "income1 \<le> income2"
  let ?tbl = "if regime = ''new'' then new_regime_slabs else old_regime_slabs"
  have "max (income1 - deductions) 0 \<le> max (income2 - deductions) 0" using le by simp
  then have "base_tax (calculate_income_tax income1 regime deductions)
       \<le> base_tax (calculate_income_tax income2 regime deductions)"
    unfolding tax_base by (rule reached_tax_mono [OF asc_table nonneg_table])
  then show ?thesis by (simp add: tax_total)
qed

theorem income_tax_monotone_witness:
  "(500000::real) \<le> 800000 \<and>
   base_tax (calculate_income_tax 500000 ''new'' 0) = 12500 \<and>
   base_tax (calculate_income_tax 800000 ''new'' 0) = 45000 \<and>
   base_tax (calculate_income_tax 500000 ''new'' 0)
       \<le> base_tax (calculate_income_tax 800000 ''new'' 0) \<and>
   total_tax (calculate_income_tax 500000 ''new'' 0)
       \<le> total_tax (calculate_income_tax 800000 ''new'' 0)"
proof -
  have h: "(500000::real) \<le> 800000" by simp
  have a: "base_tax (calculate_income_tax 500000 ''new'' 0) = 12500"
    by (simp add: calculate_income_tax_def new_regime_slabs_def Let_def)
  have b: "base_tax (calculate_income_tax 800000 ''new'' 0) = 45000"
    by (simp add: calculate_income_tax_def new_regime_slabs_def Let_def)
  from income_tax_monotone [OF h, of "''new''" 0] a b show ?thesis by simp
qed

section \<open>GST: proofs\<close>

lemma rate_lookup:
  "dict_get rates c d =
     (if c = ''Essential'' then 0.05 else if c = ''Standard'' then 0.12
      else if c = ''Luxury'' then 0.18 else if c = ''Special'' then 0.28 else d)"
  by (simp add: dict_get_def rates_def)

text \<open>
  Claim C8. For every amount and every category string the result of \<^verbatim>\<open>calculate_gst\<close>
  has \<open>gst_amount = base_price * rate\<close> and \<open>total = base_price + gst_amount\<close>, where the
  rate is the table rate of the four known categories (0.05, 0.12, 0.18, 0.28; the field
  \<^verbatim>\<open>gst_rate\<close> reports it as a percentage), and any other category gets the rate, the GST
  amount and the total of \<^verbatim>\<open>Standard\<close>.
\<close>

theorem gst_invariants:
  "let r = calculate_gst amount c;
       rate = (if c = ''Essential'' then 0.05 else if c = ''Standard'' then 0.12
               else if c = ''Luxury'' then 0.18 else if c = ''Special'' then 0.28 else 0.12)
   in base_price r = amount \<and> gst_category r = c \<and>
      gst_rate r = rate * 100 \<and>
      gst_amount r = base_price r * rate \<and>
      gst_total r = base_price r + gst_amount r \<and>
      (c \<notin> {''Essential'', ''Standard'', ''Luxury'', ''Special''} \<longrightarrow>
         gst_rate r = gst_rate (calculate_gst amount ''Standard'') \<and>
         gst_amount r = gst_amount (calculate_gst amount ''Standard'') \<and>
         gst_total r = gst_total (calculate_gst amount ''Standard''))"
  by (simp add: calculate_gst_def Let_def rate_lookup)

theorem gst_invariants_witness:
  "''Books'' \<notin> {''Essential'', ''Standard'', ''Luxury'', ''Special''} \<and>
   gst_rate (calculate_gst 1000 ''Books'') = 12 \<and>
   gst_rate (calculate_gst 1000 ''Books'') = gst_rate (calculate_gst 1000 ''Standard'') \<and>
   gst_amount (calculate_gst 1000 ''Books'') = 120 \<and>
   gst_total (calculate_gst 1000 ''Books'') = 1120"
  using gst_invariants [of 1000 "''Books''"] by (simp add: Let_def)

section \<open>Opportunity cost: proofs\<close>

lemma oc_loop_map:
  "oc_loop amount r ys (t, rows) =
     ((if ys = [] then t else opportunity_cost (oc_entry amount r (last ys))),
      rows @ map (oc_entry amount r) ys)"
  by (induction ys arbitrary: t rows) (auto simp: Let_def oc_entry_def)

lemma last_upto_years: "1 \<le> years \<Longrightarrow> last [1..years] = years"
  by (simp add: upto_rec2)

lemma oc_unfold:
  "calculate_opportunity_cost amount years r =
     \<lparr>oc_total = (if years < 1 then 0 else opportunity_cost (oc_entry amount r years)),
      oc_yearly = map (oc_entry amount r) [1..years]\<rparr>"
  by (simp add: calculate_opportunity_cost_def oc_loop_map last_upto_years)

lemma oc_cost_mono:
  fixes amount r :: real
  assumes "0 \<le> amount" "0 < r" "y1 \<le> y2"
  shows "amount * ((1 + r) ^ nat y1 - 1) \<le> amount * ((1 + r) ^ nat y2 - 1)"
proof -
  have "(1 + r) ^ nat y1 \<le> (1 + r) ^ nat y2"
    by (rule power_increasing) (use assms in auto)
  then show ?thesis using assms(1) by (intro mult_left_mono) auto
qed

lemma oc_sorted:
  assumes "0 \<le> amount" "0 < r"
  shows "sorted (map opportunity_cost (map (oc_entry amount r) [1..years]))"
proof -
  have "sorted (map (\<lambda>y. amount * ((1 + r) ^ nat y - 1)) [1..years])"
    using oc_cost_mono [OF assms]
    by (intro sorted_map_mono [unfolded mono_on_def]) (auto simp: monotone_on_def)
  then show ?thesis by (simp add: oc_entry_def comp_def)
qed


text \<open>
  Claim C9. For an amount that is not negative and at least one year, the yearly list of
  \<^verbatim>\<open>calculate_opportunity_cost\<close> has one entry per year, and the entry of year \<open>y\<close> is
  \<open>amount * ((1 + rate) ^ y - 1)\<close>, computed from the base amount each year; for a
  positive rate the yearly values never decrease; the reported total is the value of the
  last year; and amount 1000 over 1 year at rate 0.12 gives the total 120.
\<close>

theorem opportunity_cost_yearly:
  assumes "0 \<le> amount" and "1 \<le> years"
  shows "let res = calculate_opportunity_cost amount years rate;
             cost = (\<lambda>y. amount * ((1 + rate) ^ nat y - 1))
         in length (oc_yearly res) = nat years \<and>
            (\<forall>y. 1 \<le> y \<and> y \<le> years \<longrightarrow>
               oc_yearly res ! nat (y - 1) = \<lparr>oc_year = y, opportunity_cost = cost y\<rparr>) \<and>
            (0 < rate \<longrightarrow> sorted (map opportunity_cost (oc_yearly res))) \<and>
            oc_total res = opportunity_cost (last (oc_yearly res)) \<and>
            oc_total res = cost years \<and>
            oc_total (calculate_opportunity_cost 1000 1 0.12) = 120"
proof -
  let ?res = "calculate_opportunity_cost amount years rate"
  have len: "length (oc_yearly ?res) = nat years"
    using assms by (simp add: oc_unfold)
  have nth: "oc_yearly ?res ! nat (y - 1) =
      \<lparr>oc_year = y, opportunity_cost = amount * ((1 + rate) ^ nat y - 1)\<rparr>"
    if "1 \<le> y" "y \<le> years" for y
  proof -
    have "nat (y - 1) < length [1..years]" using that by simp
    then have "oc_yearly ?res ! nat (y - 1) = oc_entry amount rate ([1..years] ! nat (y - 1))"
      unfolding oc_unfold by (simp del: length_upto)
    also have "[1..years] ! nat (y - 1) = y" using that by simp
    finally show ?thesis by (simp add: oc_entry_def)
  qed
  have srt: "sorted (map opportunity_cost (oc_yearly ?res))" if "0 < rate"
    unfolding oc_unfold using oc_sorted [OF assms(1) that] by simp
  have tot: "oc_total ?res = amount * ((1 + rate) ^ nat years - 1)"
    using assms by (simp add: oc_unfold oc_entry_def)
  have lst: "oc_total ?res = opportunity_cost (last (oc_yearly ?res))"
    using assms by (simp add: oc_unfold last_map last_upto_years)
  have ex: "oc_total (calculate_opportunity_cost 1000 1 0.12) = 120"
    by (simp add: oc_unfold oc_entry_def)
  from len nth srt tot lst ex show ?thesis unfolding Let_def by blast
qed

theorem opportunity_cost_yearly_witness:
  "(0::real) \<le> 1000 \<and> (1::int) \<le> 3 \<and> (0::real) < 1 \<and>
   length (oc_yearly (calculate_opportunity_cost 1000 3 1)) = 3 \<and>
   oc_yearly (calculate_opportunity_cost 1000 3 1) ! 1 = \<lparr>oc_year = 2, opportunity_cost = 3000\<rparr> \<and>
   sorted (map opportunity_cost (oc_yearly (calculate_opportunity_cost 1000 3 1))) \<and>
   oc_total (calculate_opportunity_cost 1000 3 1) = 7000"
proof -
  have a: "(0::real) \<le> 1000" and y: "(1::int) \<le> 3" by simp_all
  note th = opportunity_cost_yearly [OF a y, of 1, unfolded Let_def]
  from th have "1 \<le> (2::int) \<and> (2::int) \<le> 3 \<longrightarrow>
      oc_yearly (calculate_opportunity_cost 1000 3 1) ! nat (2 - 1) =
        \<lparr>oc_year = 2, opportunity_cost = 1000 * ((1 + 1) ^ nat 2 - 1)\<rparr>"
    by blast
  then have n: "oc_yearly (calculate_opportunity_cost 1000 3 1) ! 1 =
      \<lparr>oc_year = 2, opportunity_cost = 3000\<rparr>"
    by simp
  from th n show ?thesis by simp
qed

section \<open>Financial health score: proofs\<close>

lemma health_fields:
  "ratio (c_savings (calculate_financial_health income expenses savings investments liabilities insurance_cover age)) =
     (if income > 0 then savings / income else 0)"
  "ratio (c_investments (calculate_financial_health income expenses savings investments liabilities insurance_cover age)) =
     (if income > 0 then investments / (income * max (age - 25) 5) else 0)"
  "ratio (c_debt (calculate_financial_health income expenses savings investments liabilities insurance_cover age)) =
     (if income > 0 then liabilities / (income * 0.5) else 0)"
  "ratio (c_insurance (calculate_financial_health income expenses savings investments liabilities insurance_cover age)) =
     (if income > 0 then insurance_cover / (income * 10) else 0)"
  "ratio (c_expenses (calculate_financial_health income expenses savings investments liabilities insurance_cover age)) =
     (if income > 0 then expenses / income else 0)"
  "ideal (c_savings (calculate_financial_health income expenses savings investments liabilities insurance_cover age)) = 0.2"
  "ideal (c_investments (calculate_financial_health income expenses savings investments liabilities insurance_cover age)) = 2"
  "ideal (c_debt (calculate_financial_health income expenses savings investments liabilities insurance_cover age)) = 1.0"
  "ideal (c_insurance (calculate_financial_health income expenses savings investments liabilities insurance_cover age)) = 1.0"
  "ideal (c_expenses (calculate_financial_health income expenses savings investments liabilities insurance_cover age)) = 0.6"
  by (simp_all only: calculate_financial_health_def Let_def health_result.select_convs
        component.select_convs)

lemma health_scores:
  fixes income expenses savings investments liabilities insurance_cover age :: real
  defines "h \<equiv> calculate_financial_health income expenses savings investments liabilities insurance_cover age"
  shows "score (c_savings h) = min (ratio (c_savings h) / 0.2) 1 * 25"
    and "score (c_investments h) = min (ratio (c_investments h) / 2) 1 * 25"
    and "score (c_debt h) = (1 - min (ratio (c_debt h)) 1) * 20"
    and "score (c_insurance h) = min (ratio (c_insurance h)) 1 * 15"
    and "score (c_expenses h) = (1 - min (max (ratio (c_expenses h) - 0.6) 0 / 0.4) 1) * 15"
    and "total_score h =
           min (max (score (c_savings h) + score (c_investments h) + score (c_debt h) +
                     score (c_insurance h) + score (c_expenses h)) 0) 100"
  unfolding h_def
  by (simp_all only: calculate_financial_health_def Let_def health_result.select_convs
        component.select_convs)

lemma unit_fraction_bounds:
  fixes m w :: real
  assumes "0 \<le> m" "m \<le> 1" "0 \<le> w"
  shows "0 \<le> m * w \<and> m * w \<le> w"
proof -
  have "m * w \<le> 1 * w" using assms by (intro mult_right_mono) auto
  moreover have "0 \<le> m * w" using assms by simp
  ultimately show ?thesis by simp
qed

lemma capped_score_bounds:
  fixes r w :: real
  assumes "0 \<le> r" "0 \<le> w"
  shows "0 \<le> min r 1 * w \<and> min r 1 * w \<le> w"
proof -
  have "0 \<le> min r 1" "min r 1 \<le> 1" using assms by auto
  then show ?thesis using unit_fraction_bounds assms(2) by blast
qed

lemma inverse_score_bounds:
  fixes r w :: real
  assumes "0 \<le> r" "0 \<le> w"
  shows "0 \<le> (1 - min r 1) * w \<and> (1 - min r 1) * w \<le> w"
proof -
  have "0 \<le> 1 - min r 1" "1 - min r 1 \<le> 1" using assms by auto
  then show ?thesis using unit_fraction_bounds assms(2) by blast
qed

lemma health_ratio_nonneg:
  fixes income expenses savings investments liabilities insurance_cover age :: real
  defines "h \<equiv> calculate_financial_health income expenses savings investments liabilities insurance_cover age"
  shows "0 \<le> savings \<Longrightarrow> 0 \<le> ratio (c_savings h)"
    and "0 \<le> investments \<Longrightarrow> 0 \<le> ratio (c_investments h)"
    and "0 \<le> liabilities \<Longrightarrow> 0 \<le> ratio (c_debt h)"
    and "0 \<le> insurance_cover \<Longrightarrow> 0 \<le> ratio (c_insurance h)"
  unfolding h_def health_fields by simp_all

lemma health_bounds:
  fixes income expenses savings investments liabilities insurance_cover age :: real
  defines "h \<equiv> calculate_financial_health income expenses savings investments liabilities insurance_cover age"
  assumes "0 \<le> savings" "0 \<le> investments" "0 \<le> liabilities" "0 \<le> insurance_cover"
  shows "0 \<le> score (c_savings h) \<and> score (c_savings h) \<le> 25"
    and "0 \<le> score (c_investments h) \<and> score (c_investments h) \<le> 25"
    and "0 \<le> score (c_debt h) \<and> score (c_debt h) \<le> 20"
    and "0 \<le> score (c_insurance h) \<and> score (c_insurance h) \<le> 15"
    and "0 \<le> score (c_expenses h) \<and> score (c_expenses h) \<le> 15"
proof -
  have rs: "0 \<le> ratio (c_savings h) / 0.2"
    using health_ratio_nonneg(1) [OF assms(2)] unfolding h_def by simp
  have ri: "0 \<le> ratio (c_investments h) / 2"
    using health_ratio_nonneg(2) [OF assms(3)] unfolding h_def by simp
  have rd: "0 \<le> ratio (c_debt h)"
    using health_ratio_nonneg(3) [OF assms(4)] unfolding h_def by simp
  have rc: "0 \<le> ratio (c_insurance h)"
    using health_ratio_nonneg(4) [OF assms(5)] unfolding h_def by simp
  have re: "0 \<le> max (ratio (c_expenses h) - 0.6) 0 / 0.4" by simp
  show "0 \<le> score (c_savings h) \<and> score (c_savings h) \<le> 25"
    unfolding h_def health_scores using capped_score_bounds [OF rs, of 25] unfolding h_def by simp
  show "0 \<le> score (c_investments h) \<and> score (c_investments h) \<le> 25"
    unfolding h_def health_scores using capped_score_bounds [OF ri, of 25] unfolding h_def by simp
  show "0 \<le> score (c_debt h) \<and> score (c_debt h) \<le> 20"
    unfolding h_def health_scores using inverse_score_bounds [OF rd, of 20] unfolding h_def by simp
  show "0 \<le> score (c_insurance h) \<and> score (c_insurance h) \<le> 15"
    unfolding h_def health_scores using capped_score_bounds [OF rc, of 15] unfolding h_def by simp
  show "0 \<le> score (c_expenses h) \<and> score (c_expenses h) \<le> 15"
    unfolding h_def health_scores using inverse_score_bounds [OF re, of 15] unfolding h_def by simp
qed

text \<open>
  Claim C3, as the code has it. When the savings, investment, insurance and expense ratios
  equal their declared ideal targets (0.2, 2, 1.0, 0.6), those four scores are at their
  full weights 25, 25, 15 and 15. The debt score is \<open>(1 - min ratio 1) * 20\<close>: at the
  declared debt ideal 1.0 it is 0 and the total score is 80; with a debt ratio of 0 it is 20
  and the total score is 100. For savings, investments, liabilities and insurance cover
  that are not negative, the total score is the sum of the five component scores, and each
  component score lies between 0 and its weight (25, 25, 20, 15, 15).
\<close>

theorem health_score_at_targets:
  fixes income expenses savings investments liabilities insurance_cover age :: real
  defines "h \<equiv> calculate_financial_health income expenses savings investments liabilities
                   insurance_cover age"
  shows "(ratio (c_savings h) = ideal (c_savings h) \<and>
          ratio (c_investments h) = ideal (c_investments h) \<and>
          ratio (c_insurance h) = ideal (c_insurance h) \<and>
          ratio (c_expenses h) = ideal (c_expenses h) \<longrightarrow>
            score (c_savings h) = 25 \<and> score (c_investments h) = 25 \<and>
            score (c_insurance h) = 15 \<and> score (c_expenses h) = 15 \<and>
            (ratio (c_debt h) = ideal (c_debt h) \<longrightarrow> score (c_debt h) = 0 \<and> total_score h = 80) \<and>
            (ratio (c_debt h) = 0 \<longrightarrow> score (c_debt h) = 20 \<and> total_score h = 100)) \<and>
         (0 \<le> savings \<and> 0 \<le> investments \<and> 0 \<le> liabilities \<and> 0 \<le> insurance_cover \<longrightarrow>
            total_score h =
              score (c_savings h) + score (c_investments h) + score (c_debt h) +
              score (c_insurance h) + score (c_expenses h) \<and>
            (0 \<le> score (c_savings h) \<and> score (c_savings h) \<le> 25) \<and>
            (0 \<le> score (c_investments h) \<and> score (c_investments h) \<le> 25) \<and>
            (0 \<le> score (c_debt h) \<and> score (c_debt h) \<le> 20) \<and>
            (0 \<le> score (c_insurance h) \<and> score (c_insurance h) \<le> 15) \<and>
            (0 \<le> score (c_expenses h) \<and> score (c_expenses h) \<le> 15))"
proof (intro conjI impI)
  assume nn: "0 \<le> savings \<and> 0 \<le> investments \<and> 0 \<le> liabilities \<and> 0 \<le> insurance_cover"
  note b = health_bounds [of savings investments liabilities insurance_cover income expenses age,
      folded h_def]
  from nn show b1: "0 \<le> score (c_savings h)" "score (c_savings h) \<le> 25"
    and b2: "0 \<le> score (c_investments h)" "score (c_investments h) \<le> 25"
    and b3: "0 \<le> score (c_debt h)" "score (c_debt h) \<le> 20"
    and b4: "0 \<le> score (c_insurance h)" "score (c_insurance h) \<le> 15"
    and b5: "0 \<le> score (c_expenses h)" "score (c_expenses h) \<le> 15"
    using b by simp_all
  have "total_score h =
      min (max (score (c_savings h) + score (c_investments h) + score (c_debt h) +
                score (c_insurance h) + score (c_expenses h)) 0) 100"
    unfolding h_def by (rule health_scores(6))
  then show "total_score h =
      score (c_savings h) + score (c_investments h) + score (c_debt h) +
      score (c_insurance h) + score (c_expenses h)"
    using b1 b2 b3 b4 b5 by linarith
next
  assume t: "ratio (c_savings h) = ideal (c_savings h) \<and>
          ratio (c_investments h) = ideal (c_investments h) \<and>
          ratio (c_insurance h) = ideal (c_insurance h) \<and>
          ratio (c_expenses h) = ideal (c_expenses h)"
  have i: "ideal (c_savings h) = 0.2" "ideal (c_investments h) = 2"
    "ideal (c_insurance h) = 1" "ideal (c_expenses h) = 0.6" "ideal (c_debt h) = 1"
    unfolding h_def by (simp_all add: health_fields)
  show s1: "score (c_savings h) = 25"
    using t i health_scores(1) [of income expenses savings investments liabilities insurance_cover age]
    unfolding h_def by simp
  show s2: "score (c_investments h) = 25"
    using t i health_scores(2) [of income expenses savings investments liabilities insurance_cover age]
    unfolding h_def by simp
  show s4: "score (c_insurance h) = 15"
    using t i health_scores(4) [of income expenses savings investments liabilities insurance_cover age]
    unfolding h_def by simp
  show s5: "score (c_expenses h) = 15"
    using t i health_scores(5) [of income expenses savings investments liabilities insurance_cover age]
    unfolding h_def by simp
  note tot = health_scores(6) [of income expenses savings investments liabilities insurance_cover age,
      folded h_def]
  {
    assume d: "ratio (c_debt h) = ideal (c_debt h)"
    show s3: "score (c_debt h) = 0"
      using d i health_scores(3) [of income expenses savings investments liabilities insurance_cover age]
      unfolding h_def by simp
    show "total_score h = 80" using tot s1 s2 s3 s4 s5 by simp
  }
  {
    assume d: "ratio (c_debt h) = 0"
    show s3: "score (c_debt h) = 20"
      using d health_scores(3) [of income expenses savings investments liabilities insurance_cover age]
      unfolding h_def by simp
    show "total_score h = 100" using tot s1 s2 s3 s4 s5 by simp
  }
qed

lemma health_at_targets_value:
  "calculate_financial_health 100 60 20 1000 50 1000 30 =
     \<lparr>total_score = 80,
      c_savings = \<lparr>ratio = 0.2, score = 25, ideal = 0.2\<rparr>,
      c_investments = \<lparr>ratio = 2, score = 25, ideal = 2\<rparr>,
      c_debt = \<lparr>ratio = 1, score = 0, ideal = 1\<rparr>,
      c_insurance = \<lparr>ratio = 1, score = 15, ideal = 1\<rparr>,
      c_expenses = \<lparr>ratio = 0.6, score = 15, ideal = 0.6\<rparr>\<rparr>"
  by (simp add: calculate_financial_health_def Let_def)

lemma health_debt_free_value:
  "calculate_financial_health 100 60 20 1000 0 1000 30 =
     \<lparr>total_score = 100,
      c_savings = \<lparr>ratio = 0.2, score = 25, ideal = 0.2\<rparr>,
      c_investments = \<lparr>ratio = 2, score = 25, ideal = 2\<rparr>,
      c_debt = \<lparr>ratio = 0, score = 20, ideal = 1\<rparr>,
      c_insurance = \<lparr>ratio = 1, score = 15, ideal = 1\<rparr>,
      c_expenses = \<lparr>ratio = 0.6, score = 15, ideal = 0.6\<rparr>\<rparr>"
  by (simp add: calculate_financial_health_def Let_def)

text \<open>
  The input below puts all five ratios on their declared ideal targets; the total score is
  80, not 100.
\<close>

theorem health_score_at_targets_counterexample:
  "ratio (c_savings (calculate_financial_health 100 60 20 1000 50 1000 30)) = 0.20 \<and>
   ratio (c_investments (calculate_financial_health 100 60 20 1000 50 1000 30)) = 2 \<and>
   ratio (c_debt (calculate_financial_health 100 60 20 1000 50 1000 30)) = 1.0 \<and>
   ratio (c_insurance (calculate_financial_health 100 60 20 1000 50 1000 30)) = 1.0 \<and>
   ratio (c_expenses (calculate_financial_health 100 60 20 1000 50 1000 30)) = 0.6 \<and>
   total_score (calculate_financial_health 100 60 20 1000 50 1000 30) = 80 \<and>
   total_score (calculate_financial_health 100 60 20 1000 50 1000 30) \<noteq> 100"
  by (simp add: health_at_targets_value)

theorem health_score_at_targets_witness:
  "(ratio (c_savings (calculate_financial_health 100 60 20 1000 50 1000 30)) =
      ideal (c_savings (calculate_financial_health 100 60 20 1000 50 1000 30)) \<and>
    ratio (c_investments (calculate_financial_health 100 60 20 1000 50 1000 30)) =
      ideal (c_investments (calculate_financial_health 100 60 20 1000 50 1000 30)) \<and>
    ratio (c_insurance (calculate_financial_health 100 60 20 1000 50 1000 30)) =
      ideal (c_insurance (calculate_financial_health 100 60 20 1000 50 1000 30)) \<and>
    ratio (c_expenses (calculate_financial_health 100 60 20 1000 50 1000 30)) =
      ideal (c_expenses (calculate_financial_health 100 60 20 1000 50 1000 30)) \<and>
    ratio (c_debt (calculate_financial_health 100 60 20 1000 50 1000 30)) =
      ideal (c_debt (calculate_financial_health 100 60 20 1000 50 1000 30))) \<and>
   ((0::real) \<le> 20 \<and> (0::real) \<le> 1000 \<and> (0::real) \<le> 50) \<and>
   total_score (calculate_financial_health 100 60 20 1000 50 1000 30) = 80 \<and>
   score (c_debt (calculate_financial_health 100 60 20 1000 50 1000 30)) \<le> 20 \<and>
   ratio (c_debt (calculate_financial_health 100 60 20 1000 0 1000 30)) = 0 \<and>
   total_score (calculate_financial_health 100 60 20 1000 0 1000 30) = 100"
proof -
  let ?h = "calculate_financial_health 100 60 20 1000 50 1000 30"
  let ?g = "calculate_financial_health 100 60 20 1000 0 1000 30"
  have hyp: "ratio (c_savings ?h) = ideal (c_savings ?h) \<and>
      ratio (c_investments ?h) = ideal (c_investments ?h) \<and>
      ratio (c_insurance ?h) = ideal (c_insurance ?h) \<and>
      ratio (c_expenses ?h) = ideal (c_expenses ?h)"
    and d: "ratio (c_debt ?h) = ideal (c_debt ?h)"
    by (simp_all add: health_at_targets_value)
  have hyp': "ratio (c_savings ?g) = ideal (c_savings ?g) \<and>
      ratio (c_investments ?g) = ideal (c_investments ?g) \<and>
      ratio (c_insurance ?g) = ideal (c_insurance ?g) \<and>
      ratio (c_expenses ?g) = ideal (c_expenses ?g)"
    and d': "ratio (c_debt ?g) = 0"
    by (simp_all add: health_debt_free_value)
  have nn: "(0::real) \<le> 20 \<and> (0::real) \<le> 1000 \<and> (0::real) \<le> 50 \<and> (0::real) \<le> 1000" by simp
  from health_score_at_targets [of 100 60 20 1000 50 1000 30] hyp d nn
  have a: "total_score ?h = 80" and b: "score (c_debt ?h) \<le> 20" by blast+
  from health_score_at_targets [of 100 60 20 1000 0 1000 30] hyp' d'
  have c: "total_score ?g = 100" by blast
  from hyp d a b c d' show ?thesis by simp
qed

text \<open>
  Claim C4, as the code has it. With an income of 0 and any other arguments the function
  returns (it has no failing branch), all five ratios are 0, the savings, investment and
  insurance scores are 0, the debt score is its full weight 20 and the expense score its
  full weight 15, so the total score is 35.
\<close>

theorem health_zero_income:
  fixes expenses savings investments liabilities insurance_cover age :: real
  defines "h \<equiv> calculate_financial_health 0 expenses savings investments liabilities
                   insurance_cover age"
  shows "ratio (c_savings h) = 0 \<and> ratio (c_investments h) = 0 \<and> ratio (c_debt h) = 0 \<and>
         ratio (c_insurance h) = 0 \<and> ratio (c_expenses h) = 0 \<and>
         score (c_savings h) = 0 \<and> score (c_investments h) = 0 \<and>
         score (c_insurance h) = 0 \<and>
         score (c_debt h) = 20 \<and> score (c_expenses h) = 15 \<and>
         total_score h = 35"
  unfolding h_def by (simp add: calculate_financial_health_def Let_def)

text \<open>
  The debt and expense terms guard their division by zero as well, and at income 0 they
  contribute 20 and 15, not 0.
\<close>

theorem health_zero_income_counterexample:
  "ratio (c_debt (calculate_financial_health 0 0 0 0 0 0 30)) = 0 \<and>
   score (c_debt (calculate_financial_health 0 0 0 0 0 0 30)) = 20 \<and>
   ratio (c_expenses (calculate_financial_health 0 0 0 0 0 0 30)) = 0 \<and>
   score (c_expenses (calculate_financial_health 0 0 0 0 0 0 30)) = 15 \<and>
   total_score (calculate_financial_health 0 0 0 0 0 0 30) = 35"
  by (simp add: calculate_financial_health_def Let_def)

section \<open>Investment growth: proofs\<close>

lemma Arg_negative_real:
  assumes "x < 0"
  shows "Arg (of_real x) = pi"
proof (rule cis_Arg_unique)
  show "sgn (complex_of_real x) = cis pi" using assms by (simp add: sgn_eq)
  show "- pi < pi" by simp
  show "pi \<le> pi" by simp
qed

lemma py_pow_real_base:
  fixes x :: real
  shows "x = 0 \<Longrightarrow> 0 < a \<Longrightarrow> py_pow (of_real x) a = Inr 0"
    and "0 < x \<Longrightarrow> py_pow (of_real x) a = Inr (of_real (x powr a))"
    and "x < 0 \<Longrightarrow> py_pow (of_real x) a = Inr (of_real ((- x) powr a) * cis (a * pi))"
proof -
  show "x = 0 \<Longrightarrow> 0 < a \<Longrightarrow> py_pow (of_real x) a = Inr 0"
    by (simp add: py_pow_def)
  show "0 < x \<Longrightarrow> py_pow (of_real x) a = Inr (of_real (x powr a))"
    by (simp add: py_pow_def)
  show "py_pow (of_real x) a = Inr (of_real ((- x) powr a) * cis (a * pi))" if "x < 0"
  proof -
    have c: "cmod (complex_of_real x) = - x" using that by simp
    have a: "Arg (complex_of_real x) = pi" by (rule Arg_negative_real [OF that])
    show ?thesis unfolding py_pow_def a c using that by simp
  qed
qed

lemma py_pow_monthly:
  "py_pow (of_real (1 + rate)) (1 / 12) = Inr (monthly_factor rate)"
proof -
  consider "1 + rate = 0" | "0 < 1 + rate" | "1 + rate < 0" by linarith
  then show ?thesis
  proof cases
    case 1
    have "py_pow (of_real (1 + rate)) (1 / 12) = Inr 0"
      by (rule py_pow_real_base(1) [OF 1]) simp
    then show ?thesis unfolding monthly_factor_def using 1 by simp
  next
    case 2
    have "py_pow (of_real (1 + rate)) (1 / 12) = Inr (of_real ((1 + rate) powr (1 / 12)))"
      by (rule py_pow_real_base(2) [OF 2])
    then show ?thesis unfolding monthly_factor_def using 2 by simp
  next
    case 3
    have "py_pow (of_real (1 + rate)) (1 / 12) =
        Inr (of_real ((- (1 + rate)) powr (1 / 12)) * cis (1 / 12 * pi))"
      by (rule py_pow_real_base(3) [OF 3])
    then show ?thesis unfolding monthly_factor_def using 3 by simp
  qed
qed

lemma sip_months_funpow:
  assumes "py_pow (of_real (1 + rate)) (1 / 12) = Inr f"
  shows "sip_months k c rate n = Inr (((\<lambda>v. (v + of_real c) * f) ^^ k) n)"
  using assms by (induction k arbitrary: n) (simp_all add: funpow_Suc_right del: funpow.simps)

lemma sip_recurrence_add:
  "((\<lambda>v. (v + c) * f) ^^ k) (sip_recurrence c f n) = sip_recurrence c f (n + k)"
  by (simp add: sip_recurrence_def funpow_add add.commute)

lemma sip_loop_append:
  "sip_loop c rate inflation (xs @ ys) st =
     (case sip_loop c rate inflation xs st of
        Inl e \<Rightarrow> Inl e
      | Inr st' \<Rightarrow> sip_loop c rate inflation ys st')"
proof (induction xs arbitrary: st)
  case Nil
  then show ?case by simp
next
  case (Cons x xs)
  obtain n rows where st: "st = (n, rows)" by (cases st)
  show ?case unfolding st using Cons.IH
    by (simp split: sum.splits)
qed

lemma sip_loop_year:
  assumes f: "py_pow (of_real (1 + rate)) (1 / 12) = Inr f"
    and c: "c \<noteq> 0" and infl: "inflation \<noteq> - 1"
  shows "sip_loop c rate inflation [int (Suc n)] (sip_recurrence (of_real c) f (12 * n), rows) =
     Inr (sip_recurrence (of_real c) f (12 * Suc n), rows @ [sip_row c f inflation (int (Suc n))])"
proof -
  have m: "sip_months 12 c rate (sip_recurrence (of_real c) f (12 * n)) =
      Inr (sip_recurrence (of_real c) f (12 * Suc n))"
    using sip_months_funpow [OF f, of 12 c "sip_recurrence (of_real c) f (12 * n)"]
    by (simp add: sip_recurrence_add add.commute)
  have "(1 + inflation) ^ Suc n \<noteq> 0" using infl by simp
  then have d: "complex_of_real ((1 + inflation) ^ Suc n) \<noteq> 0" unfolding of_real_eq_0_iff .
  have "c * 12 * of_int (int (Suc n)) \<noteq> 0" using c by simp
  then have e: "complex_of_real (c * 12 * of_int (int (Suc n))) \<noteq> 0"
    unfolding of_real_eq_0_iff .
  show ?thesis
    using d e by (simp add: m c_div_def sip_row_def del: power_Suc of_nat_Suc of_real_power of_real_mult)
qed

lemma sip_loop_years:
  assumes f: "py_pow (of_real (1 + rate)) (1 / 12) = Inr f"
    and c: "c \<noteq> 0" and infl: "inflation \<noteq> - 1"
  shows "sip_loop c rate inflation [1..int n] (0, []) =
     Inr (sip_recurrence (of_real c) f (12 * n), map (sip_row c f inflation) [1..int n])"
proof (induction n)
  case 0
  then show ?case by (simp add: sip_recurrence_def)
next
  case (Suc n)
  have "[1..int (Suc n)] = [1..int n] @ [int (Suc n)]"
    using upto_rec2 [of 1 "int (Suc n)"] by simp
  then show ?case
    using Suc sip_loop_year [OF f c infl] by (simp add: sip_loop_append del: of_nat_Suc)
qed

lemma py_pow_positive_exponent:
  "0 < a \<Longrightarrow> \<exists>c. py_pow z a = Inr c"
  by (auto simp: py_pow_def)

lemma sip_result:
  assumes p: "0 < c" and y: "1 \<le> years" and i: "inflation \<noteq> - 1"
    and m: "mode \<noteq> ''lumpsum''"
  shows "\<exists>g. calculate_investment_growth c years rate mode inflation =
           Inr \<lparr>final_nominal = sip_recurrence (of_real c) (monthly_factor rate) (12 * nat years),
                final_real = sip_recurrence (of_real c) (monthly_factor rate) (12 * nat years)
                               / of_real ((1 + inflation) ^ nat years),
                yearly = map (sip_row c (monthly_factor rate) inflation) [1..years],
                cagr = g\<rparr>"
proof -
  let ?f = "monthly_factor rate"
  let ?rows = "map (sip_row c ?f inflation) [1..years]"
  have c0: "c \<noteq> 0" using p by simp
  then have cc: "complex_of_real c \<noteq> 0" unfolding of_real_eq_0_iff .
  have yn: "int (nat years) = years" using y by simp
  have loop: "sip_loop c rate inflation [1..years] (0, []) =
      Inr (sip_recurrence (of_real c) ?f (12 * nat years), ?rows)"
    using sip_loop_years [OF py_pow_monthly [of rate] c0 i, of "nat years"]
    unfolding yn .
  have ne: "?rows \<noteq> []" using y by simp
  have lst: "last ?rows = sip_row c ?f inflation years"
    using y by (simp add: last_map upto_rec2)
  have "0 < 1 / real_of_int years" using y by simp
  then obtain d where
    d: "py_pow (sip_recurrence (of_real c) ?f (12 * nat years) / of_real c) (1 / real_of_int years) = Inr d"
    using py_pow_positive_exponent by blast
  have yp: "0 < years" using y by simp
  show ?thesis
    unfolding calculate_investment_growth_def
    using m yp cc ne
    by (simp add: loop lst sip_row_def c_div_def d Let_def del: upto_Nil upto_Nil2)
qed

text \<open>
  Claim C6, as the code has it. In SIP mode (any mode other than \<^verbatim>\<open>lumpsum\<close>) with a
  positive principal, at least one year, any rate and an inflation other than \<open>-1\<close>,
  \<^verbatim>\<open>calculate_investment_growth\<close> returns a result with one row per year. The nominal value
  of year \<open>y\<close> is the direct recurrence run for \<open>12 * y\<close> steps from 0 (add the principal,
  then multiply by the value of \<^verbatim>\<open>(1 + rate) ** (1 / 12)\<close>, which is the real twelfth root
  for a rate of at least \<open>-1\<close> and a complex number below); the real value is that nominal
  divided by \<open>(1 + inflation) ^ y\<close>; and the growth is
  \<open>(nominal / (principal * 12 * y) - 1) * 100\<close>, measured against the contributions made
  so far.
\<close>

theorem sip_growth_recurrence:
  assumes "0 < principal'" and "1 \<le> years" and "inflation \<noteq> - 1"
    and "mode \<noteq> ''lumpsum''"
  shows "\<exists>res. calculate_investment_growth principal' years rate mode inflation = Inr res \<and>
           py_pow (of_real (1 + rate)) (1 / 12) = Inr (monthly_factor rate) \<and>
           (- 1 \<le> rate \<longrightarrow> monthly_factor rate = of_real ((1 + rate) powr (1 / 12))) \<and>
           length (yearly res) = nat years \<and>
           (\<forall>y. 1 \<le> y \<and> y \<le> years \<longrightarrow>
              y_year (yearly res ! nat (y - 1)) = y \<and>
              y_nominal (yearly res ! nat (y - 1)) =
                sip_recurrence (of_real principal') (monthly_factor rate) (12 * nat y) \<and>
              y_real (yearly res ! nat (y - 1)) =
                sip_recurrence (of_real principal') (monthly_factor rate) (12 * nat y)
                  / of_real ((1 + inflation) ^ nat y) \<and>
              y_growth (yearly res ! nat (y - 1)) =
                (sip_recurrence (of_real principal') (monthly_factor rate) (12 * nat y)
                   / of_real (principal' * 12 * of_int y) - 1) * 100) \<and>
           final_nominal res =
             sip_recurrence (of_real principal') (monthly_factor rate) (12 * nat years) \<and>
           final_real res =
             sip_recurrence (of_real principal') (monthly_factor rate) (12 * nat years)
               / of_real ((1 + inflation) ^ nat years)"
proof -
  let ?f = "monthly_factor rate"
  let ?rows = "map (sip_row principal' ?f inflation) [1..years]"
  from sip_result [OF assms] obtain g where
    res: "calculate_investment_growth principal' years rate mode inflation =
           Inr \<lparr>final_nominal = sip_recurrence (of_real principal') ?f (12 * nat years),
                final_real = sip_recurrence (of_real principal') ?f (12 * nat years)
                               / of_real ((1 + inflation) ^ nat years),
                yearly = ?rows, cagr = g\<rparr>"
    by blast
  have pw: "py_pow (of_real (1 + rate)) (1 / 12) = Inr ?f" by (rule py_pow_monthly)
  have mf: "- 1 \<le> rate \<longrightarrow> ?f = of_real ((1 + rate) powr (1 / 12))"
    by (simp add: monthly_factor_def)
  have len: "length ?rows = nat years" using assms(2) by simp
  have nth: "?rows ! nat (y - 1) = sip_row principal' ?f inflation y"
    if "1 \<le> y" "y \<le> years" for y
  proof -
    have "nat (y - 1) < length [1..years]" using that by simp
    then have "?rows ! nat (y - 1) = sip_row principal' ?f inflation ([1..years] ! nat (y - 1))"
      by (simp del: length_upto)
    also have "[1..years] ! nat (y - 1) = y" using that by simp
    finally show ?thesis .
  qed
  have rows: "\<forall>y. 1 \<le> y \<and> y \<le> years \<longrightarrow>
              y_year (?rows ! nat (y - 1)) = y \<and>
              y_nominal (?rows ! nat (y - 1)) =
                sip_recurrence (of_real principal') ?f (12 * nat y) \<and>
              y_real (?rows ! nat (y - 1)) =
                sip_recurrence (of_real principal') ?f (12 * nat y)
                  / of_real ((1 + inflation) ^ nat y) \<and>
              y_growth (?rows ! nat (y - 1)) =
                (sip_recurrence (of_real principal') ?f (12 * nat y)
                   / of_real (principal' * 12 * of_int y) - 1) * 100"
    using nth by (simp add: sip_row_def del: of_real_power of_real_mult of_real_add)
  show ?thesis
    unfolding res using pw mf len rows by simp
qed

text \<open>
  With an inflation of \<open>-1\<close> the deflator \<open>(1 + inflation) ^ year\<close> is 0 and the division
  for the real value raises.
\<close>

theorem sip_growth_recurrence_counterexample:
  "calculate_investment_growth 1000 1 0.12 ''sip'' (- 1) = Inl ZeroDivisionError"
  by (simp add: calculate_investment_growth_def py_pow_def c_div_def
        eval_nat_numeral split: sum.splits)

theorem sip_growth_recurrence_witness:
  "((0::real) < 1000 \<and> (1::int) \<le> 1 \<and> (0.06::real) \<noteq> - 1 \<and> ''sip'' \<noteq> ''lumpsum'' \<and>
    - 1 \<le> (0.12::real)) \<and>
   (\<exists>res. calculate_investment_growth 1000 1 0.12 ''sip'' 0.06 = Inr res \<and>
      length (yearly res) = 1 \<and>
      y_nominal (yearly res ! 0) = sip_recurrence 1000 (of_real (1.12 powr (1 / 12))) 12 \<and>
      y_real (yearly res ! 0) =
        sip_recurrence 1000 (of_real (1.12 powr (1 / 12))) 12 / 1.06 \<and>
      y_growth (yearly res ! 0) =
        (sip_recurrence 1000 (of_real (1.12 powr (1 / 12))) 12 / 12000 - 1) * 100) \<and>
   (\<exists>res. calculate_investment_growth 1000 1 (- 3) ''sip'' 0.06 = Inr res \<and>
      y_nominal (yearly res ! 0) =
        sip_recurrence 1000 (of_real (2 powr (1 / 12)) * cis (pi / 12)) 12)"
proof -
  have h: "(0::real) < 1000" "(1::int) \<le> 1" "(0.06::real) \<noteq> - 1" "''sip'' \<noteq> ''lumpsum''"
    by simp_all
  have r: "- 1 \<le> (0.12::real)" by simp
  have y: "(1::int) \<le> 1 \<and> (1::int) \<le> 1" by simp
  from sip_growth_recurrence [OF h, of "0.12"] obtain res where
    a1: "calculate_investment_growth 1000 1 0.12 ''sip'' 0.06 = Inr res"
    and a2: "- 1 \<le> (0.12::real) \<longrightarrow>
        monthly_factor 0.12 = of_real ((1 + 0.12) powr (1 / 12))"
    and a3: "length (yearly res) = nat 1"
    and a4: "\<forall>y. 1 \<le> y \<and> y \<le> 1 \<longrightarrow>
              y_year (yearly res ! nat (y - 1)) = y \<and>
              y_nominal (yearly res ! nat (y - 1)) =
                sip_recurrence (of_real 1000) (monthly_factor 0.12) (12 * nat y) \<and>
              y_real (yearly res ! nat (y - 1)) =
                sip_recurrence (of_real 1000) (monthly_factor 0.12) (12 * nat y)
                  / of_real ((1 + 0.06) ^ nat y) \<and>
              y_growth (yearly res ! nat (y - 1)) =
                (sip_recurrence (of_real 1000) (monthly_factor 0.12) (12 * nat y)
                   / of_real (1000 * 12 * of_int y) - 1) * 100"
    by (elim exE conjE) (rule that)
  from a2 r have mf: "monthly_factor 0.12 = of_real ((1 + 0.12) powr (1 / 12))" by (rule mp)
  from a4 have "(1::int) \<le> 1 \<and> (1::int) \<le> 1 \<longrightarrow>
              y_year (yearly res ! nat (1 - 1)) = 1 \<and>
              y_nominal (yearly res ! nat (1 - 1)) =
                sip_recurrence (of_real 1000) (monthly_factor 0.12) (12 * nat 1) \<and>
              y_real (yearly res ! nat (1 - 1)) =
                sip_recurrence (of_real 1000) (monthly_factor 0.12) (12 * nat 1)
                  / of_real ((1 + 0.06) ^ nat 1) \<and>
              y_growth (yearly res ! nat (1 - 1)) =
                (sip_recurrence (of_real 1000) (monthly_factor 0.12) (12 * nat 1)
                   / of_real (1000 * 12 * of_int 1) - 1) * 100"
    by (rule spec)
  from this y have row: "y_year (yearly res ! nat (1 - 1)) = 1 \<and>
              y_nominal (yearly res ! nat (1 - 1)) =
                sip_recurrence (of_real 1000) (monthly_factor 0.12) (12 * nat 1) \<and>
              y_real (yearly res ! nat (1 - 1)) =
                sip_recurrence (of_real 1000) (monthly_factor 0.12) (12 * nat 1)
                  / of_real ((1 + 0.06) ^ nat 1) \<and>
              y_growth (yearly res ! nat (1 - 1)) =
                (sip_recurrence (of_real 1000) (monthly_factor 0.12) (12 * nat 1)
                   / of_real (1000 * 12 * of_int 1) - 1) * 100"
    by (rule mp)
  have first: "calculate_investment_growth 1000 1 0.12 ''sip'' 0.06 = Inr res \<and>
      length (yearly res) = 1 \<and>
      y_nominal (yearly res ! 0) = sip_recurrence 1000 (of_real (1.12 powr (1 / 12))) 12 \<and>
      y_real (yearly res ! 0) =
        sip_recurrence 1000 (of_real (1.12 powr (1 / 12))) 12 / 1.06 \<and>
      y_growth (yearly res ! 0) =
        (sip_recurrence 1000 (of_real (1.12 powr (1 / 12))) 12 / 12000 - 1) * 100"
    using a1 a3 row unfolding mf by simp
  from sip_growth_recurrence [OF h, of "- 3"] obtain res' where
    b1: "calculate_investment_growth 1000 1 (- 3) ''sip'' 0.06 = Inr res'"
    and b4: "\<forall>y. 1 \<le> y \<and> y \<le> 1 \<longrightarrow>
              y_year (yearly res' ! nat (y - 1)) = y \<and>
              y_nominal (yearly res' ! nat (y - 1)) =
                sip_recurrence (of_real 1000) (monthly_factor (- 3)) (12 * nat y) \<and>
              y_real (yearly res' ! nat (y - 1)) =
                sip_recurrence (of_real 1000) (monthly_factor (- 3)) (12 * nat y)
                  / of_real ((1 + 0.06) ^ nat y) \<and>
              y_growth (yearly res' ! nat (y - 1)) =
                (sip_recurrence (of_real 1000) (monthly_factor (- 3)) (12 * nat y)
                   / of_real (1000 * 12 * of_int y) - 1) * 100"
    by (elim exE conjE) (rule that)
  from b4 have "(1::int) \<le> 1 \<and> (1::int) \<le> 1 \<longrightarrow>
              y_year (yearly res' ! nat (1 - 1)) = 1 \<and>
              y_nominal (yearly res' ! nat (1 - 1)) =
                sip_recurrence (of_real 1000) (monthly_factor (- 3)) (12 * nat 1) \<and>
              y_real (yearly res' ! nat (1 - 1)) =
                sip_recurrence (of_real 1000) (monthly_factor (- 3)) (12 * nat 1)
                  / of_real ((1 + 0.06) ^ nat 1) \<and>
              y_growth (yearly res' ! nat (1 - 1)) =
                (sip_recurrence (of_real 1000) (monthly_factor (- 3)) (12 * nat 1)
                   / of_real (1000 * 12 * of_int 1) - 1) * 100"
    by (rule spec)
  from this y have "y_year (yearly res' ! nat (1 - 1)) = 1 \<and>
              y_nominal (yearly res' ! nat (1 - 1)) =
                sip_recurrence (of_real 1000) (monthly_factor (- 3)) (12 * nat 1) \<and>
              y_real (yearly res' ! nat (1 - 1)) =
                sip_recurrence (of_real 1000) (monthly_factor (- 3)) (12 * nat 1)
                  / of_real ((1 + 0.06) ^ nat 1) \<and>
              y_growth (yearly res' ! nat (1 - 1)) =
                (sip_recurrence (of_real 1000) (monthly_factor (- 3)) (12 * nat 1)
                   / of_real (1000 * 12 * of_int 1) - 1) * 100"
    by (rule mp)
  then have nom: "y_nominal (yearly res' ! 0) =
      sip_recurrence 1000 (of_real (2 powr (1 / 12)) * cis (pi / 12)) 12"
    by (simp add: monthly_factor_def)
  have second: "calculate_investment_growth 1000 1 (- 3) ''sip'' 0.06 = Inr res' \<and>
      y_nominal (yearly res' ! 0) =
        sip_recurrence 1000 (of_real (2 powr (1 / 12)) * cis (pi / 12)) 12"
    using b1 nom by (rule conjI)
  have e1: "\<exists>res. calculate_investment_growth 1000 1 0.12 ''sip'' 0.06 = Inr res \<and>
      length (yearly res) = 1 \<and>
      y_nominal (yearly res ! 0) = sip_recurrence 1000 (of_real (1.12 powr (1 / 12))) 12 \<and>
      y_real (yearly res ! 0) =
        sip_recurrence 1000 (of_real (1.12 powr (1 / 12))) 12 / 1.06 \<and>
      y_growth (yearly res ! 0) =
        (sip_recurrence 1000 (of_real (1.12 powr (1 / 12))) 12 / 12000 - 1) * 100"
    by (rule exI [where x = res]) (rule first)
  have e2: "\<exists>res. calculate_investment_growth 1000 1 (- 3) ''sip'' 0.06 = Inr res \<and>
      y_nominal (yearly res ! 0) =
        sip_recurrence 1000 (of_real (2 powr (1 / 12)) * cis (pi / 12)) 12"
    by (rule exI [where x = res']) (rule second)
  have hyp: "(0::real) < 1000 \<and> (1::int) \<le> 1 \<and> (0.06::real) \<noteq> - 1 \<and> ''sip'' \<noteq> ''lumpsum'' \<and>
    - 1 \<le> (0.12::real)"
    by simp
  show ?thesis by (rule conjI [OF hyp conjI [OF e1 e2]])
qed

section \<open>Budget optimizer: proofs\<close>

subsection \<open>Variable names of the essential categories\<close>

lemma lower_char_illegal_all: "\<forall>c \<in> set illegal_chars. lower_char c = c"
  by (simp add: illegal_chars_def lower_char_def)

lemma lower_char_illegal: "c \<in> set illegal_chars \<Longrightarrow> lower_char c = c"
  using lower_char_illegal_all by blast

lemma lower_char_underscore: "lower_char (CHR ''_'') = CHR ''_''"
  by (simp add: lower_char_def)

lemma lp_name_id:
  assumes "s \<noteq> []" and "set (lower s) \<inter> set illegal_chars = {}"
  shows "lp_name s = Some s"
proof -
  have "c \<notin> set illegal_chars" if "c \<in> set s" for c
  proof
    assume i: "c \<in> set illegal_chars"
    then have "lower_char c = c" by (rule lower_char_illegal)
    then have "c \<in> set (lower s)" using that by (force simp: lower_def)
    with i assms(2) show False by blast
  qed
  then have "map (\<lambda>c. if c \<in> set illegal_chars then CHR ''_'' else c) s = s"
    by (intro map_idI) simp
  then show ?thesis unfolding lp_name_def using assms(1) by simp
qed

lemma essential_lp_name:
  assumes "lower cat \<in> set [''rent'', ''utilities'']"
  shows "lp_name cat = Some cat"
proof -
  from assms consider "lower cat = ''rent''" | "lower cat = ''utilities''" by auto
  then have d: "set (lower cat) \<inter> set illegal_chars = {}"
    by cases (simp_all add: illegal_chars_def)
  from assms have "lower cat \<noteq> []" by auto
  then have "cat \<noteq> []" by (auto simp: lower_def)
  then show ?thesis using d by (rule lp_name_id)
qed

lemma essential_no_underscore:
  assumes "lower cat \<in> set [''rent'', ''utilities'']"
  shows "CHR ''_'' \<notin> set cat"
proof
  assume "CHR ''_'' \<in> set cat"
  then have "lower_char (CHR ''_'') \<in> set (lower cat)" unfolding lower_def by simp
  then have u: "CHR ''_'' \<in> set (lower cat)" by (simp add: lower_char_underscore)
  from assms consider "lower cat = ''rent''" | "lower cat = ''utilities''" by auto
  then show False using u by cases simp_all
qed

lemma lp_name_no_underscore:
  assumes "lp_name s = Some t" and "CHR ''_'' \<notin> set t"
  shows "t = s"
proof -
  have ne: "s \<noteq> []" using assms(1) by (auto simp: lp_name_def split: if_splits)
  then have t: "t = map (\<lambda>c. if c \<in> set illegal_chars then CHR ''_'' else c) s"
    using assms(1) by (simp add: lp_name_def)
  have "c \<notin> set illegal_chars" if "c \<in> set s" for c
  proof
    assume "c \<in> set illegal_chars"
    then have "CHR ''_'' \<in> set t" using that unfolding t by force
    with assms(2) show False by simp
  qed
  then have "map (\<lambda>c. if c \<in> set illegal_chars then CHR ''_'' else c) s = s"
    by (intro map_idI) simp
  then show ?thesis using t by simp
qed

lemma essential_lp_name_inj:
  assumes "lower cat \<in> set [''rent'', ''utilities'']" and "lp_name c' = Some cat"
  shows "c' = cat"
  using lp_name_no_underscore [OF assms(2) essential_no_underscore [OF assms(1)]] by simp

subsection \<open>The returned dictionary\<close>

lemma foldl_update_other:
  "k \<notin> fst ` set kvs \<Longrightarrow>
     map_of (foldl (\<lambda>d (k, v). AList.update k v d) d kvs) k = map_of d k"
proof (induction kvs arbitrary: d)
  case Nil
  then show ?case by simp
next
  case (Cons a kvs)
  obtain a1 a2 where a: "a = (a1, a2)" by (cases a)
  have ne: "k \<noteq> a1" and rest: "k \<notin> fst ` set kvs" using Cons.prems by (auto simp: a)
  have "map_of (foldl (\<lambda>d (k, v). AList.update k v d) (AList.update a1 a2 d) kvs) k =
      map_of (AList.update a1 a2 d) k"
    by (rule Cons.IH [OF rest])
  also have "\<dots> = map_of d k" using ne by (simp add: update_conv')
  finally show ?case by (simp add: a)
qed

lemma foldl_update_unique:
  "(k, w) \<in> set kvs \<Longrightarrow> (\<forall>w'. (k, w') \<in> set kvs \<longrightarrow> w' = w) \<Longrightarrow>
     map_of (foldl (\<lambda>d (k, v). AList.update k v d) d kvs) k = Some w"
proof (induction kvs arbitrary: d)
  case Nil
  then show ?case by simp
next
  case (Cons a kvs)
  obtain a1 a2 where a: "a = (a1, a2)" by (cases a)
  show ?case
  proof (cases "k \<in> fst ` set kvs")
    case True
    then obtain w'' where "(k, w'') \<in> set kvs" by auto
    moreover from this Cons.prems(2) have "w'' = w" by simp
    ultimately have "(k, w) \<in> set kvs" by simp
    moreover have "\<forall>w'. (k, w') \<in> set kvs \<longrightarrow> w' = w" using Cons.prems(2) by simp
    ultimately have "map_of (foldl (\<lambda>d (k, v). AList.update k v d) (AList.update a1 a2 d) kvs) k = Some w"
      by (rule Cons.IH)
    then show ?thesis by (simp add: a)
  next
    case False
    then have "(k, w) = a" using Cons.prems(1) by force
    then have ka: "a1 = k" "a2 = w" by (simp_all add: a)
    have "map_of (foldl (\<lambda>d (k, v). AList.update k v d) (AList.update a1 a2 d) kvs) k =
        map_of (AList.update a1 a2 d) k"
      by (rule foldl_update_other [OF False])
    also have "\<dots> = Some w" by (simp add: ka update_conv')
    finally show ?thesis by (simp add: a)
  qed
qed

lemma dict_of_lookup:
  "(k, w) \<in> set kvs \<Longrightarrow> (\<forall>w'. (k, w') \<in> set kvs \<longrightarrow> w' = w) \<Longrightarrow>
     map_of (dict_of kvs) k = Some w"
  unfolding dict_of_def by (rule foldl_update_unique)

lemma update_member:
  "(a, b) \<in> set (AList.update k v al) \<Longrightarrow> (a, b) = (k, v) \<or> (a, b) \<in> set al"
  by (induction al) (auto split: if_splits)

lemma update_total:
  "(\<forall>(k', w') \<in> set al. 0 \<le> value_or_zero w') \<Longrightarrow>
     alloc_total (AList.update k v al) \<le> alloc_total al + value_or_zero v"
  by (induction al) (auto simp: alloc_total_def)

lemma foldl_update_member:
  "(a, b) \<in> set (foldl (\<lambda>d (k, v). AList.update k v d) d kvs) \<Longrightarrow>
     (a, b) \<in> set d \<union> set kvs"
proof (induction kvs arbitrary: d)
  case Nil
  then show ?case by simp
next
  case (Cons x kvs)
  obtain k v where x: "x = (k, v)" by (cases x)
  from Cons.prems have "(a, b) \<in> set (AList.update k v d) \<union> set kvs"
    using Cons.IH [of "AList.update k v d"] by (simp add: x)
  then show ?case using update_member [of a b k v d] by (auto simp: x)
qed

lemma foldl_update_total:
  "(\<forall>(k', w') \<in> set d \<union> set kvs. 0 \<le> value_or_zero w') \<Longrightarrow>
     alloc_total (foldl (\<lambda>d (k, v). AList.update k v d) d kvs)
       \<le> alloc_total d + alloc_total kvs"
proof (induction kvs arbitrary: d)
  case Nil
  then show ?case by (simp add: alloc_total_def)
next
  case (Cons x kvs)
  obtain k v where x: "x = (k, v)" by (cases x)
  have d: "\<forall>(k', w') \<in> set d. 0 \<le> value_or_zero w'" using Cons.prems by auto
  have v: "0 \<le> value_or_zero v" using Cons.prems by (auto simp: x)
  have "\<forall>(k', w') \<in> set (AList.update k v d) \<union> set kvs. 0 \<le> value_or_zero w'"
  proof (clarify)
    fix a b assume "(a, b) \<in> set (AList.update k v d) \<union> set kvs"
    then have "(a, b) = (k, v) \<or> (a, b) \<in> set d \<or> (a, b) \<in> set kvs"
      using update_member [of a b k v d] by auto
    then show "0 \<le> value_or_zero b" using Cons.prems v by (auto simp: x)
  qed
  then have "alloc_total (foldl (\<lambda>d (k, v). AList.update k v d) (AList.update k v d) kvs)
      \<le> alloc_total (AList.update k v d) + alloc_total kvs"
    by (rule Cons.IH)
  also have "\<dots> \<le> alloc_total d + value_or_zero v + alloc_total kvs"
    using update_total [OF d, of k v] by simp
  finally show ?case by (simp add: x alloc_total_def)
qed

lemma dict_of_total:
  "(\<forall>(k, w) \<in> set kvs. 0 \<le> value_or_zero w) \<Longrightarrow>
     alloc_total (dict_of kvs) \<le> alloc_total kvs"
  using foldl_update_total [of "[]" kvs] by (simp add: dict_of_def alloc_total_def)

lemma dict_of_member: "(a, b) \<in> set (dict_of kvs) \<Longrightarrow> (a, b) \<in> set kvs"
  using foldl_update_member [of a b "[]" kvs] by (simp add: dict_of_def)


lemma foldl_update_map_of:
  "map_of (foldl (\<lambda>d (k, v). AList.update k v d) d kvs) = map_of (rev kvs @ d)"
proof (induction kvs arbitrary: d)
  case Nil
  then show ?case by simp
next
  case (Cons x kvs)
  obtain k v where x: "x = (k, v)" by (cases x)
  have "map_of (foldl (\<lambda>d (k, v). AList.update k v d) (AList.update k v d) kvs) =
      map_of (rev kvs @ AList.update k v d)"
    by (rule Cons.IH)
  also have "\<dots> = map_of (AList.update k v d) ++ map_of (rev kvs)" by (rule map_of_append)
  also have "map_of (AList.update k v d) = map_of ((k, v) # d)" by (simp add: update_conv')
  also have "map_of ((k, v) # d) ++ map_of (rev kvs) = map_of (rev kvs @ (k, v) # d)"
    by (rule map_of_append [symmetric])
  finally show ?case by (simp add: x)
qed

lemma dict_of_map_of: "map_of (dict_of kvs) = map_of (rev kvs)"
  using foldl_update_map_of [of "[]" kvs] by (simp add: dict_of_def)

lemma foldl_update_distinct:
  "distinct (map fst d) \<Longrightarrow> distinct (map fst (foldl (\<lambda>d (k, v). AList.update k v d) d kvs))"
proof (induction kvs arbitrary: d)
  case Nil
  then show ?case by simp
next
  case (Cons x kvs)
  obtain k v where x: "x = (k, v)" by (cases x)
  have "distinct (map fst (AList.update k v d))" using Cons.prems by (rule distinct_update)
  then have "distinct (map fst (foldl (\<lambda>d (k, v). AList.update k v d) (AList.update k v d) kvs))"
    by (rule Cons.IH)
  then show ?case by (simp add: x)
qed

lemma dict_of_distinct: "distinct (map fst (dict_of kvs))"
  using foldl_update_distinct [of "[]" kvs] by (simp add: dict_of_def)

lemma update_new_key: "k \<notin> fst ` set al \<Longrightarrow> AList.update k v al = al @ [(k, v)]"
  by (induction al) auto

lemma foldl_update_fresh:
  "distinct (map fst (d @ kvs)) \<Longrightarrow> foldl (\<lambda>d (k, v). AList.update k v d) d kvs = d @ kvs"
proof (induction kvs arbitrary: d)
  case Nil
  then show ?case by simp
next
  case (Cons x kvs)
  obtain k v where x: "x = (k, v)" by (cases x)
  have fresh: "k \<notin> fst ` set d" using Cons.prems by (auto simp: x)
  have u: "AList.update k v d = d @ [(k, v)]" by (rule update_new_key [OF fresh])
  have "distinct (map fst ((d @ [(k, v)]) @ kvs))" using Cons.prems by (simp add: x)
  then have "foldl (\<lambda>d (k, v). AList.update k v d) (d @ [(k, v)]) kvs = (d @ [(k, v)]) @ kvs"
    by (rule Cons.IH)
  then show ?case by (simp add: x u)
qed

lemma dict_of_fresh: "distinct (map fst kvs) \<Longrightarrow> dict_of kvs = kvs"
  using foldl_update_fresh [of "[]" kvs] by (simp add: dict_of_def)

subsection \<open>The problem that is built\<close>

lemma total_constraint_cases:
  assumes "total_constraint n s b = Inr cs"
  shows "(n = 0 \<and> compare 0 s b \<and> cs = []) \<or>
         (n \<noteq> 0 \<and> cs = [\<lparr>con_expr = map (\<lambda>i. (i, 1)) [0..<n], con_sense = s, con_rhs = b\<rparr>])"
  using assms unfolding total_constraint_def by (auto split: if_splits)

lemma build_problem_parts:
  assumes "build_problem income sd ms ra = Inr prob"
  shows "\<exists>obj c1 c2.
           total_constraint (length sd) LE (income - ms) = Inr c1 \<and>
           total_constraint (length sd) GE (income * 0.4) = Inr c2 \<and>
           prob = \<lparr>prob_variables = map (make_variable ra) sd, prob_objective = obj,
                   prob_constraints = c1 @ c2 @ essential_constraints sd\<rparr>"
  using assms unfolding build_problem_def Let_def
  by (auto split: sum.splits)

lemma build_problem_variables:
  assumes "build_problem income sd ms ra = Inr prob"
  shows "prob_variables prob = map (make_variable ra) sd"
  using build_problem_parts [OF assms] by auto

lemma build_problem_essential:
  assumes "build_problem income sd ms ra = Inr prob"
  shows "set (essential_constraints sd) \<subseteq> set (prob_constraints prob)"
  using build_problem_parts [OF assms] by auto

lemma build_problem_total:
  assumes "build_problem income sd ms ra = Inr prob"
  shows "(sd = [] \<and> 0 \<le> income - ms) \<or>
         (sd \<noteq> [] \<and>
          \<lparr>con_expr = map (\<lambda>i. (i, 1)) [0..<length sd], con_sense = LE,
            con_rhs = income - ms\<rparr> \<in> set (prob_constraints prob))"
proof -
  from build_problem_parts [OF assms] obtain obj c1 c2 where
    c1: "total_constraint (length sd) LE (income - ms) = Inr c1" and
    p: "prob = \<lparr>prob_variables = map (make_variable ra) sd, prob_objective = obj,
                 prob_constraints = c1 @ c2 @ essential_constraints sd\<rparr>"
    by blast
  from total_constraint_cases [OF c1] show ?thesis
  proof
    assume "length sd = 0 \<and> compare 0 LE (income - ms) \<and> c1 = []"
    then show ?thesis by (simp add: compare_def)
  next
    assume "length sd \<noteq> 0 \<and>
      c1 = [\<lparr>con_expr = map (\<lambda>i. (i, 1)) [0..<length sd], con_sense = LE, con_rhs = income - ms\<rparr>]"
    then show ?thesis by (simp add: p)
  qed
qed

lemma build_problem_succeeds:
  assumes "income \<noteq> 0" and "sd \<noteq> []" and "\<forall>(cat, data) \<in> set sd. sp_amount data \<noteq> 0"
  shows "\<exists>prob. build_problem income sd ms ra = Inr prob"
proof -
  have "\<exists>obj. objective_terms income ms ra i sd = Inr obj" for i
    using assms(1,3)
  proof (induction sd arbitrary: i)
    case Nil
    then show ?case by simp
  next
    case (Cons a sd)
    obtain cat data where a: "a = (cat, data)" by (cases a)
    have "sp_amount data \<noteq> 0" using Cons.prems(2) by (simp add: a)
    moreover obtain obj where "objective_terms income ms ra (Suc i) sd = Inr obj"
      using Cons.IH [of "Suc i"] Cons.prems by auto
    ultimately show ?case using Cons.prems(1) by (cases obj) (simp add: a py_div_def)
  qed
  then obtain obj where "objective_terms income ms ra 0 sd = Inr obj" by blast
  then show ?thesis using assms(2)
    by (simp add: build_problem_def total_constraint_def)
qed

lemma expr_value_total:
  "expr_value (map (\<lambda>i. (i, 1)) is) x = sum_list (map x is)"
  by (induction "is") (simp_all add: expr_value_def)

lemma essential_constraint_member:
  assumes "j < length sd" and "sd ! j = (cat, data)"
    and "lower cat \<in> set [''rent'', ''utilities'']"
  shows "\<lparr>con_expr = [(j, 1)], con_sense = GE, con_rhs = sp_amount data * 0.9\<rparr>
           \<in> set (essential_constraints sd)"
proof -
  have "(j, (cat, data)) \<in> set (enumerate 0 sd)"
    using assms(1,2) by (simp add: in_set_enumerate_eq)
  then show ?thesis
    unfolding essential_constraints_def using assms(3) by (force simp del: set_simps)
qed

lemma feasible_bounds:
  assumes "feasible prob x" and "j < length (prob_variables prob)"
  shows "lowBound (prob_variables prob ! j) \<le> x j \<and> x j \<le> upBound (prob_variables prob ! j)"
proof -
  have "(j, prob_variables prob ! j) \<in> set (enumerate 0 (prob_variables prob))"
    using assms(2) by (simp add: in_set_enumerate_eq)
  moreover have "\<forall>(i, v) \<in> set (enumerate 0 (prob_variables prob)).
      lowBound v \<le> x i \<and> x i \<le> upBound v"
    using assms(1) unfolding feasible_def list_all_iff by blast
  ultimately show ?thesis by blast
qed

lemma feasible_constraint:
  assumes "feasible prob x" and "c \<in> set (prob_constraints prob)"
  shows "holds c x"
  using assms unfolding feasible_def list_all_iff by blast

lemma returned_pairs_member:
  "(k, w) \<in> set (map (\<lambda>(i, v). (var_name v, varValue i))
                   (enumerate 0 (map (make_variable ra) sd))) \<longleftrightarrow>
     (\<exists>i < length sd. k = lp_name (fst (sd ! i)) \<and> w = varValue i)"
proof
  assume "(k, w) \<in> set (map (\<lambda>(i, v). (var_name v, varValue i))
                   (enumerate 0 (map (make_variable ra) sd)))"
  then obtain i v where iv: "(i, v) \<in> set (enumerate 0 (map (make_variable ra) sd))"
    and kw: "k = var_name v" "w = varValue i"
    by auto
  from iv have i: "i < length sd" and v: "v = make_variable ra (sd ! i)"
    by (auto simp: in_set_enumerate_eq)
  have "var_name v = lp_name (fst (sd ! i))"
    unfolding v make_variable_def by (cases "sd ! i") simp
  with i kw show "\<exists>i < length sd. k = lp_name (fst (sd ! i)) \<and> w = varValue i" by blast
next
  assume "\<exists>i < length sd. k = lp_name (fst (sd ! i)) \<and> w = varValue i"
  then obtain i where i: "i < length sd" and kw: "k = lp_name (fst (sd ! i))" "w = varValue i"
    by blast
  have "(i, make_variable ra (sd ! i)) \<in> set (enumerate 0 (map (make_variable ra) sd))"
    using i by (simp add: in_set_enumerate_eq)
  moreover have "var_name (make_variable ra (sd ! i)) = lp_name (fst (sd ! i))"
    unfolding make_variable_def by (cases "sd ! i") simp
  ultimately show "(k, w) \<in> set (map (\<lambda>(i, v). (var_name v, varValue i))
                   (enumerate 0 (map (make_variable ra) sd)))"
    using kw by force
qed

lemma returned_pairs_total:
  "alloc_total (map (\<lambda>(i, v). (var_name v, varValue i)) (enumerate 0 vars)) =
     sum_list (map (\<lambda>i. value_or_zero (varValue i)) [0..<length vars])"
proof -
  let ?g = "\<lambda>i. value_or_zero (varValue i)"
  have "map (\<lambda>(k, w). value_or_zero w) (map (\<lambda>(i, v). (var_name v, varValue i)) (enumerate 0 vars)) =
      map (\<lambda>x. ?g (fst x)) (enumerate 0 vars)"
    by (simp add: case_prod_beta comp_def)
  also have "\<dots> = map ?g (map fst (enumerate 0 vars))"
    by (simp only: map_map comp_def)
  also have "\<dots> = map ?g [0..<length vars]" by simp
  finally have e: "map (\<lambda>(k, w). value_or_zero w)
        (map (\<lambda>(i, v). (var_name v, varValue i)) (enumerate 0 vars)) =
      map ?g [0..<length vars]" .
  show ?thesis unfolding alloc_total_def by (simp only: e)
qed

lemma low_bound_pos:
  assumes "0 < sp_amount data"
  shows "0 < lowBound (make_variable ra (cat, data))"
  using assms by (simp add: make_variable_def)


lemma returned_pairs_eq:
  "map (\<lambda>(i, v). (var_name v, varValue i)) (enumerate 0 (map (make_variable ra) sd)) =
     map (\<lambda>i. (lp_name (fst (sd ! i)), varValue i)) [0..<length sd]"
proof (rule nth_equalityI)
  show "length (map (\<lambda>(i, v). (var_name v, varValue i)) (enumerate 0 (map (make_variable ra) sd))) =
      length (map (\<lambda>i. (lp_name (fst (sd ! i)), varValue i)) [0..<length sd])"
    by simp
next
  fix i
  assume "i < length (map (\<lambda>(i, v). (var_name v, varValue i))
      (enumerate 0 (map (make_variable ra) sd)))"
  then have i: "i < length sd" by simp
  have "var_name (make_variable ra (sd ! i)) = lp_name (fst (sd ! i))"
    unfolding make_variable_def by (cases "sd ! i") simp
  then show "map (\<lambda>(i, v). (var_name v, varValue i)) (enumerate 0 (map (make_variable ra) sd)) ! i =
      map (\<lambda>i. (lp_name (fst (sd ! i)), varValue i)) [0..<length sd] ! i"
    using i by (simp add: nth_enumerate_eq)
qed

subsection \<open>The claims about the optimizer\<close>

text \<open>
  Claim C2. Take an instance whose problem is built, a solver that solves it (it reports
  \<open>Optimal\<close> and leaves a feasible value in every variable), distinct category names and
  positive amounts. Then \<^verbatim>\<open>optimize_budget\<close> returns a mapping that gives every category
  whose lower-cased name is \<^verbatim>\<open>rent\<close> or \<^verbatim>\<open>utilities\<close> at least 90 percent of its current
  amount, every entry holds a value, and the returned allocations add up to at most
  \<open>income - min_savings\<close>.
\<close>

theorem optimizer_respects_constraints:
  assumes build: "build_problem income spending_data min_savings risk_appetite = Inr prob"
    and sol: "solved solve prob"
    and keys: "distinct (map fst spending_data)"
    and pos: "\<forall>(cat, data) \<in> set spending_data. 0 < sp_amount data"
  shows "\<exists>alloc. optimize_budget solve income spending_data min_savings risk_appetite = Inr alloc \<and>
           (\<forall>(cat, data) \<in> set spending_data.
              lower cat \<in> set [''rent'', ''utilities''] \<longrightarrow>
                (\<exists>v. map_of alloc (Some cat) = Some (Some v) \<and> sp_amount data * 0.9 \<le> v)) \<and>
           (\<forall>(k, w) \<in> set alloc. w \<noteq> None) \<and>
           alloc_total alloc \<le> income - min_savings"
proof -
  from sol obtain status varValue where s: "solve prob = Inr (status, varValue)"
    unfolding solved_def by (auto split: sum.splits)
  let ?x = "\<lambda>i. value_or_zero (varValue i)"
  let ?n = "length spending_data"
  let ?vars = "map (make_variable risk_appetite) spending_data"
  let ?kvs = "map (\<lambda>(i, v). (var_name v, varValue i)) (enumerate 0 ?vars)"
  have vars: "prob_variables prob = ?vars" by (rule build_problem_variables [OF build])
  have some: "varValue i \<noteq> None" if "i < ?n" for i
    using sol that unfolding solved_def s list_all_iff by (simp add: vars)
  have feas: "feasible prob ?x" using sol unfolding solved_def s by simp
  have res: "optimize_budget solve income spending_data min_savings risk_appetite = Inr (dict_of ?kvs)"
    unfolding optimize_budget_def build by (simp add: s vars)
  have low: "0 < ?x i" if "i < ?n" for i
  proof -
    obtain cat data where cd: "spending_data ! i = (cat, data)" by (cases "spending_data ! i")
    then have "(cat, data) \<in> set spending_data" using that by (metis nth_mem)
    then have "0 < sp_amount data" using pos by blast
    then have "0 < lowBound (make_variable risk_appetite (spending_data ! i))"
      unfolding cd by (rule low_bound_pos)
    moreover have "lowBound (prob_variables prob ! i) \<le> ?x i"
      using feasible_bounds [OF feas, of i] that by (simp add: vars)
    ultimately show ?thesis using that by (simp add: vars)
  qed
  have ess: "\<exists>v. map_of (dict_of ?kvs) (Some cat) = Some (Some v) \<and> sp_amount data * 0.9 \<le> v"
    if m: "(cat, data) \<in> set spending_data" and e: "lower cat \<in> set [''rent'', ''utilities'']"
    for cat data
  proof -
    from m obtain j where j: "j < ?n" and sj: "spending_data ! j = (cat, data)"
      by (auto simp: in_set_conv_nth)
    have nm: "lp_name cat = Some cat" by (rule essential_lp_name [OF e])
    have mem: "(Some cat, varValue j) \<in> set ?kvs"
      unfolding returned_pairs_member using j sj nm by force
    have uniq: "\<forall>w'. (Some cat, w') \<in> set ?kvs \<longrightarrow> w' = varValue j"
    proof (intro allI impI)
      fix w' assume "(Some cat, w') \<in> set ?kvs"
      then obtain i where i: "i < ?n" and c: "Some cat = lp_name (fst (spending_data ! i))"
        and w: "w' = varValue i"
        unfolding returned_pairs_member by blast
      have "fst (spending_data ! i) = cat"
        using essential_lp_name_inj [OF e, of "fst (spending_data ! i)"] c by simp
      then have "map fst spending_data ! i = map fst spending_data ! j"
        using i j sj by simp
      moreover have "i < length (map fst spending_data)" "j < length (map fst spending_data)"
        using i j by simp_all
      ultimately have "i = j" using nth_eq_iff_index_eq [OF keys] by blast
      then show "w' = varValue j" using w by simp
    qed
    have look: "map_of (dict_of ?kvs) (Some cat) = Some (varValue j)"
      by (rule dict_of_lookup [OF mem uniq])
    obtain v where v: "varValue j = Some v" using some [OF j] by auto
    have "\<lparr>con_expr = [(j, 1)], con_sense = GE, con_rhs = sp_amount data * 0.9\<rparr>
        \<in> set (prob_constraints prob)"
      using essential_constraint_member [OF j sj e] build_problem_essential [OF build] by blast
    from feasible_constraint [OF feas this] have "sp_amount data * 0.9 \<le> ?x j"
      by (simp add: holds_def compare_def expr_value_def)
    then have "sp_amount data * 0.9 \<le> v" by (simp add: v value_or_zero_def)
    with look v show ?thesis by simp
  qed
  have none: "w \<noteq> None" if "(k, w) \<in> set (dict_of ?kvs)" for k w
  proof -
    from that have "(k, w) \<in> set ?kvs" by (rule dict_of_member)
    then obtain i where "i < ?n" "w = varValue i" unfolding returned_pairs_member by blast
    then show ?thesis using some by simp
  qed
  have nonneg: "\<forall>(k, w) \<in> set ?kvs. 0 \<le> value_or_zero w"
  proof (clarify)
    fix k w assume "(k, w) \<in> set ?kvs"
    then obtain i where "i < ?n" "w = varValue i" unfolding returned_pairs_member by blast
    then show "0 \<le> value_or_zero w" using low [of i] by simp
  qed
  have "alloc_total (dict_of ?kvs) \<le> alloc_total ?kvs" by (rule dict_of_total [OF nonneg])
  also have "\<dots> = sum_list (map ?x [0..<?n])"
    using returned_pairs_total [of varValue ?vars] by simp
  also have "\<dots> \<le> income - min_savings"
  proof -
    from build_problem_total [OF build] show ?thesis
    proof
      assume "spending_data = [] \<and> 0 \<le> income - min_savings"
      then show ?thesis by simp
    next
      assume "spending_data \<noteq> [] \<and>
          \<lparr>con_expr = map (\<lambda>i. (i, 1)) [0..<?n], con_sense = LE,
            con_rhs = income - min_savings\<rparr> \<in> set (prob_constraints prob)"
      then have "holds \<lparr>con_expr = map (\<lambda>i. (i, 1)) [0..<?n], con_sense = LE,
            con_rhs = income - min_savings\<rparr> ?x"
        using feasible_constraint [OF feas] by blast
      then show ?thesis by (simp add: holds_def compare_def expr_value_total)
    qed
  qed
  finally have tot: "alloc_total (dict_of ?kvs) \<le> income - min_savings" .
  from res ess none tot show ?thesis by blast
qed

lemma build_rent_and_food:
  "build_problem 50000 rent_and_food 10000 0.5 = Inr
     \<lparr>prob_variables =
        [\<lparr>var_name = Some ''Rent'', lowBound = 13500, upBound = 16500\<rparr>,
         \<lparr>var_name = Some ''Food'', lowBound = 7200, upBound = 8800\<rparr>],
      prob_objective = ([(0, 6 / 15000 * 0.5), (1, 8 / 8000 * 0.5)], 0.2),
      prob_constraints =
        [\<lparr>con_expr = [(0, 1), (1, 1)], con_sense = LE, con_rhs = 40000\<rparr>,
         \<lparr>con_expr = [(0, 1), (1, 1)], con_sense = GE, con_rhs = 20000\<rparr>,
         \<lparr>con_expr = [(0, 1)], con_sense = GE, con_rhs = 13500\<rparr>]\<rparr>"
  by (simp add: build_problem_def rent_and_food_def make_variable_def lp_name_def
      illegal_chars_def py_div_def total_constraint_def essential_constraints_def lower_def
      lower_char_def enumerate_eq_zip upt_rec)

lemma solved_rent_and_food:
  "solved (solver_outcome Optimal [16500, 8800])
     \<lparr>prob_variables =
        [\<lparr>var_name = Some ''Rent'', lowBound = 13500, upBound = 16500\<rparr>,
         \<lparr>var_name = Some ''Food'', lowBound = 7200, upBound = 8800\<rparr>],
      prob_objective = ([(0, 6 / 15000 * 0.5), (1, 8 / 8000 * 0.5)], 0.2),
      prob_constraints =
        [\<lparr>con_expr = [(0, 1), (1, 1)], con_sense = LE, con_rhs = 40000\<rparr>,
         \<lparr>con_expr = [(0, 1), (1, 1)], con_sense = GE, con_rhs = 20000\<rparr>,
         \<lparr>con_expr = [(0, 1)], con_sense = GE, con_rhs = 13500\<rparr>]\<rparr>"
  by (simp add: solved_def solver_outcome_def feasible_def holds_def
      compare_def expr_value_def value_or_zero_def enumerate_eq_zip upt_rec)

theorem optimizer_respects_constraints_witness:
  "distinct (map fst rent_and_food) \<and>
   list_all (\<lambda>(cat, data). 0 < sp_amount data) rent_and_food \<and>
   lower ''Rent'' \<in> set [''rent'', ''utilities''] \<and>
   (\<exists>prob. build_problem 50000 rent_and_food 10000 0.5 = Inr prob \<and>
      solved (solver_outcome Optimal [16500, 8800]) prob) \<and>
   (\<exists>alloc. optimize_budget (solver_outcome Optimal [16500, 8800]) 50000 rent_and_food 10000 0.5 = Inr alloc \<and>
      (\<exists>v. map_of alloc (Some ''Rent'') = Some (Some v) \<and> 15000 * 0.9 \<le> v) \<and>
      alloc_total alloc \<le> 50000 - 10000)"
proof -
  let ?P = "\<lparr>prob_variables =
        [\<lparr>var_name = Some ''Rent'', lowBound = 13500, upBound = 16500\<rparr>,
         \<lparr>var_name = Some ''Food'', lowBound = 7200, upBound = 8800\<rparr>],
      prob_objective = ([(0, 6 / 15000 * 0.5), (1, 8 / 8000 * 0.5)], 0.2),
      prob_constraints =
        [\<lparr>con_expr = [(0, 1), (1, 1)], con_sense = LE, con_rhs = 40000\<rparr>,
         \<lparr>con_expr = [(0, 1), (1, 1)], con_sense = GE, con_rhs = 20000\<rparr>,
         \<lparr>con_expr = [(0, 1)], con_sense = GE, con_rhs = 13500\<rparr>]\<rparr>"
  have b: "build_problem 50000 rent_and_food 10000 0.5 = Inr ?P" by (rule build_rent_and_food)
  have s: "solved (solver_outcome Optimal [16500, 8800]) ?P" by (rule solved_rent_and_food)
  have d: "distinct (map fst rent_and_food)" by (simp add: rent_and_food_def)
  have p: "\<forall>(cat, data) \<in> set rent_and_food. 0 < sp_amount data"
    by (simp add: rent_and_food_def)
  have p': "list_all (\<lambda>(cat, data). 0 < sp_amount data) rent_and_food"
    by (simp add: rent_and_food_def)
  have e: "lower ''Rent'' \<in> set [''rent'', ''utilities'']"
    by (simp add: lower_def lower_char_def)
  have m: "(''Rent'', \<lparr>sp_amount = 15000, sp_happiness = 6, sp_essential = True\<rparr>)
      \<in> set rent_and_food"
    by (simp add: rent_and_food_def)
  from optimizer_respects_constraints [OF b s d p] obtain alloc where
    r: "optimize_budget (solver_outcome Optimal [16500, 8800]) 50000 rent_and_food 10000 0.5 = Inr alloc"
    and es: "\<forall>(cat, data) \<in> set rent_and_food.
              lower cat \<in> set [''rent'', ''utilities''] \<longrightarrow>
                (\<exists>v. map_of alloc (Some cat) = Some (Some v) \<and> sp_amount data * 0.9 \<le> v)"
    and t: "alloc_total alloc \<le> 50000 - 10000"
    by blast
  from es m e have "\<exists>v. map_of alloc (Some ''Rent'') = Some (Some v) \<and> 15000 * 0.9 \<le> v"
    by fastforce
  with r t have "\<exists>alloc. optimize_budget (solver_outcome Optimal [16500, 8800]) 50000 rent_and_food 10000 0.5 = Inr alloc \<and>
      (\<exists>v. map_of alloc (Some ''Rent'') = Some (Some v) \<and> 15000 * 0.9 \<le> v) \<and>
      alloc_total alloc \<le> 50000 - 10000"
    by blast
  moreover have "\<exists>prob. build_problem 50000 rent_and_food 10000 0.5 = Inr prob \<and>
      solved (solver_outcome Optimal [16500, 8800]) prob"
    using b s by blast
  ultimately show ?thesis using d p' e by blast
qed

lemma foldl_update_keys:
  "fst ` set (foldl (\<lambda>d (k, v). AList.update k v d) d kvs) = fst ` set d \<union> fst ` set kvs"
proof (induction kvs arbitrary: d)
  case Nil
  then show ?case by simp
next
  case (Cons x kvs)
  obtain k v where x: "x = (k, v)" by (cases x)
  have "fst ` set (foldl (\<lambda>d (k, v). AList.update k v d) (AList.update k v d) kvs) =
      fst ` set (AList.update k v d) \<union> fst ` set kvs"
    by (rule Cons.IH)
  also have "fst ` set (AList.update k v d) = {k} \<union> fst ` set d" by (rule dom_update)
  finally show ?case by (simp add: x)
qed

lemma dict_of_keys: "fst ` set (dict_of kvs) = fst ` set kvs"
  using foldl_update_keys [of "[]" kvs] by (simp add: dict_of_def)

lemma infeasible_when_savings_exceed_income:
  assumes build: "build_problem income sd ms ra = Inr prob"
    and lt: "income < ms" and ne: "sd \<noteq> []"
    and pos: "\<forall>(cat, data) \<in> set sd. 0 < sp_amount data"
  shows "\<not> feasible prob x"
proof
  assume feas: "feasible prob x"
  have vars: "prob_variables prob = map (make_variable ra) sd"
    by (rule build_problem_variables [OF build])
  have low: "0 \<le> x i" if "i < length sd" for i
  proof -
    obtain cat data where cd: "sd ! i = (cat, data)" by (cases "sd ! i")
    then have "(cat, data) \<in> set sd" using that by (metis nth_mem)
    then have "0 < sp_amount data" using pos by blast
    then have "0 < lowBound (make_variable ra (sd ! i))"
      unfolding cd by (rule low_bound_pos)
    moreover have "lowBound (prob_variables prob ! i) \<le> x i"
      using feasible_bounds [OF feas, of i] that by (simp add: vars)
    ultimately show ?thesis using that by (simp add: vars)
  qed
  then have "0 \<le> sum_list (map x [0..<length sd])"
    by (intro sum_list_nonneg) auto
  moreover have "sum_list (map x [0..<length sd]) \<le> income - ms"
  proof -
    from build_problem_total [OF build] ne
    have "\<lparr>con_expr = map (\<lambda>i. (i, 1)) [0..<length sd], con_sense = LE,
            con_rhs = income - ms\<rparr> \<in> set (prob_constraints prob)"
      by blast
    from feasible_constraint [OF feas this] show ?thesis
      by (simp add: holds_def compare_def expr_value_total)
  qed
  ultimately show False using lt by simp
qed

lemma returned_names:
  "map fst (map (\<lambda>i. (lp_name (fst (sd ! i)), varValue i)) [0..<length sd]) =
     map (\<lambda>(cat, data). lp_name cat) sd"
proof (rule nth_equalityI)
  show "length (map fst (map (\<lambda>i. (lp_name (fst (sd ! i)), varValue i)) [0..<length sd])) =
      length (map (\<lambda>(cat, data). lp_name cat) sd)"
    by simp
next
  fix i
  assume "i < length (map fst (map (\<lambda>i. (lp_name (fst (sd ! i)), varValue i)) [0..<length sd]))"
  then have i: "i < length sd" by simp
  then show "map fst (map (\<lambda>i. (lp_name (fst (sd ! i)), varValue i)) [0..<length sd]) ! i =
      map (\<lambda>(cat, data). lp_name cat) sd ! i"
    by (simp add: case_prod_beta)
qed

text \<open>
  Claim C1, as the code has it. \<^verbatim>\<open>optimize_budget\<close> reads no status. For a nonzero income
  and a nonempty spending map without a zero amount the problem is built and handed to the
  solver. If the solver's run raises, the error is the outcome of the function. If it
  returns, the function returns a mapping, whatever status the solver reports: its keys are
  the variable names of the categories, each key holds the value the solver left in the
  last variable of that name, and with distinct variable names the mapping is exactly the
  list of the names with the values the solver left in their variables, in order. This
  includes the instances with \<open>min_savings > income\<close> and positive amounts, whose problem
  has no feasible assignment: what comes back there is whatever the solver left.
\<close>

theorem optimizer_returns_solver_values:
  assumes nz: "income \<noteq> 0" and ne: "spending_data \<noteq> []"
    and amt: "\<forall>(cat, data) \<in> set spending_data. sp_amount data \<noteq> 0"
  shows "\<exists>prob.
           build_problem income spending_data min_savings risk_appetite = Inr prob \<and>
           (\<forall>e. solve prob = Inl e \<longrightarrow>
              optimize_budget solve income spending_data min_savings risk_appetite = Inl e) \<and>
           (\<forall>status varValue. solve prob = Inr (status, varValue) \<longrightarrow>
              (\<exists>alloc.
                 optimize_budget solve income spending_data min_savings risk_appetite = Inr alloc \<and>
                 distinct (map fst alloc) \<and>
                 map_of alloc =
                   map_of (rev (map (\<lambda>i. (lp_name (fst (spending_data ! i)), varValue i))
                                  [0..<length spending_data])) \<and>
                 (distinct (map (\<lambda>(cat, data). lp_name cat) spending_data) \<longrightarrow>
                    alloc = map (\<lambda>i. (lp_name (fst (spending_data ! i)), varValue i))
                              [0..<length spending_data]))) \<and>
           (income < min_savings \<and> (\<forall>(cat, data) \<in> set spending_data. 0 < sp_amount data) \<longrightarrow>
              (\<forall>x. \<not> feasible prob x))"
proof -
  from build_problem_succeeds [OF nz ne amt] obtain prob where
    build: "build_problem income spending_data min_savings risk_appetite = Inr prob"
    by blast
  let ?vars = "map (make_variable risk_appetite) spending_data"
  let ?kvs = "\<lambda>varValue. map (\<lambda>i. (lp_name (fst (spending_data ! i)), varValue i))
                            [0..<length spending_data]"
  have vars: "prob_variables prob = ?vars" by (rule build_problem_variables [OF build])
  have err: "\<forall>e. solve prob = Inl e \<longrightarrow>
      optimize_budget solve income spending_data min_savings risk_appetite = Inl e"
    unfolding optimize_budget_def build by simp
  have ret: "\<exists>alloc.
        optimize_budget solve income spending_data min_savings risk_appetite = Inr alloc \<and>
        distinct (map fst alloc) \<and>
        map_of alloc = map_of (rev (?kvs varValue)) \<and>
        (distinct (map (\<lambda>(cat, data). lp_name cat) spending_data) \<longrightarrow> alloc = ?kvs varValue)"
    if s: "solve prob = Inr (status, varValue)" for status varValue
  proof -
    have res: "optimize_budget solve income spending_data min_savings risk_appetite =
        Inr (dict_of (?kvs varValue))"
      unfolding optimize_budget_def build by (simp add: s vars returned_pairs_eq)
    have d: "distinct (map fst (dict_of (?kvs varValue)))" by (rule dict_of_distinct)
    have m: "map_of (dict_of (?kvs varValue)) = map_of (rev (?kvs varValue))"
      by (rule dict_of_map_of)
    have f: "dict_of (?kvs varValue) = ?kvs varValue"
      if "distinct (map (\<lambda>(cat, data). lp_name cat) spending_data)"
    proof -
      have "distinct (map fst (?kvs varValue))" unfolding returned_names by (rule that)
      then show ?thesis by (rule dict_of_fresh)
    qed
    from res d m f show ?thesis by blast
  qed
  have inf: "income < min_savings \<and> (\<forall>(cat, data) \<in> set spending_data. 0 < sp_amount data) \<longrightarrow>
      (\<forall>x. \<not> feasible prob x)"
    using infeasible_when_savings_exceed_income [OF build _ ne] by blast
  from build err ret inf show ?thesis by blast
qed

lemma build_rent_short:
  "build_problem 100 rent_only 200 0.5 = Inr
     \<lparr>prob_variables = [\<lparr>var_name = Some ''Rent'', lowBound = 450, upBound = 550\<rparr>],
      prob_objective = ([(0, 6 / 500 * 0.5)], 1),
      prob_constraints =
        [\<lparr>con_expr = [(0, 1)], con_sense = LE, con_rhs = - 100\<rparr>,
         \<lparr>con_expr = [(0, 1)], con_sense = GE, con_rhs = 40\<rparr>,
         \<lparr>con_expr = [(0, 1)], con_sense = GE, con_rhs = 450\<rparr>]\<rparr>"
  by (simp add: build_problem_def rent_only_def make_variable_def lp_name_def
      illegal_chars_def py_div_def total_constraint_def essential_constraints_def lower_def
      lower_char_def enumerate_eq_zip upt_rec)

lemma result_rent_short:
  "optimize_budget (solver_outcome Infeasible [- 100]) 100 rent_only 200 0.5 =
     Inr [(Some ''Rent'', Some (- 100))]"
  unfolding optimize_budget_def build_rent_short
  by (simp add: solver_outcome_def dict_of_def)

lemma infeasible_rent_short:
  "\<not> feasible
     \<lparr>prob_variables = [\<lparr>var_name = Some ''Rent'', lowBound = 450, upBound = 550\<rparr>],
      prob_objective = ([(0, 6 / 500 * 0.5)], 1),
      prob_constraints =
        [\<lparr>con_expr = [(0, 1)], con_sense = LE, con_rhs = - 100\<rparr>,
         \<lparr>con_expr = [(0, 1)], con_sense = GE, con_rhs = 40\<rparr>,
         \<lparr>con_expr = [(0, 1)], con_sense = GE, con_rhs = 450\<rparr>]\<rparr>
     (everywhere (- 100))"
  by (simp add: feasible_def everywhere_def enumerate_eq_zip upt_rec)

text \<open>
  With an income of 100, a savings goal of 200 and the one category Rent of amount 500 the
  problem has no feasible assignment. CBC reports \<open>Infeasible\<close> on it and leaves \<open>-100\<close> in
  the variable of Rent. On this outcome the function returns the mapping of Rent to \<open>-100\<close>:
  an allocation mapping and not a signal, with a value outside the bounds 450 to 550 of the
  variable, which satisfies no assignment of the problem.
\<close>

theorem optimizer_infeasible_counterexample:
  "(100::real) < 200 \<and>
   build_problem 100 rent_only 200 0.5 = Inr
     \<lparr>prob_variables = [\<lparr>var_name = Some ''Rent'', lowBound = 450, upBound = 550\<rparr>],
      prob_objective = ([(0, 6 / 500 * 0.5)], 1),
      prob_constraints =
        [\<lparr>con_expr = [(0, 1)], con_sense = LE, con_rhs = - 100\<rparr>,
         \<lparr>con_expr = [(0, 1)], con_sense = GE, con_rhs = 40\<rparr>,
         \<lparr>con_expr = [(0, 1)], con_sense = GE, con_rhs = 450\<rparr>]\<rparr> \<and>
   optimize_budget (solver_outcome Infeasible [- 100]) 100 rent_only 200 0.5 =
     Inr [(Some ''Rent'', Some (- 100))] \<and>
   \<not> feasible
     \<lparr>prob_variables = [\<lparr>var_name = Some ''Rent'', lowBound = 450, upBound = 550\<rparr>],
      prob_objective = ([(0, 6 / 500 * 0.5)], 1),
      prob_constraints =
        [\<lparr>con_expr = [(0, 1)], con_sense = LE, con_rhs = - 100\<rparr>,
         \<lparr>con_expr = [(0, 1)], con_sense = GE, con_rhs = 40\<rparr>,
         \<lparr>con_expr = [(0, 1)], con_sense = GE, con_rhs = 450\<rparr>]\<rparr>
     (everywhere (- 100))"
proof -
  have a: "(100::real) < 200" by simp
  show ?thesis
    by (rule conjI [OF a conjI [OF build_rent_short conjI [OF result_rent_short infeasible_rent_short]]])
qed

theorem optimizer_returns_solver_values_witness:
  "((100::real) \<noteq> 0 \<and> rent_only \<noteq> [] \<and>
    list_all (\<lambda>(cat, data). sp_amount data \<noteq> 0) rent_only \<and>
    list_all (\<lambda>(cat, data). 0 < sp_amount data) rent_only \<and> (100::real) < 200 \<and>
    distinct (map (\<lambda>(cat, data). lp_name cat) rent_only)) \<and>
   (\<exists>prob alloc.
      build_problem 100 rent_only 200 0.5 = Inr prob \<and>
      optimize_budget (solver_outcome Infeasible [- 100]) 100 rent_only 200 0.5 = Inr alloc \<and>
      alloc = [(Some ''Rent'', Some (- 100))] \<and>
      \<not> feasible prob (everywhere 500))"
proof -
  have nz: "(100::real) \<noteq> 0" and ne: "rent_only \<noteq> []"
    and amt: "\<forall>(cat, data) \<in> set rent_only. sp_amount data \<noteq> 0"
    and pos: "\<forall>(cat, data) \<in> set rent_only. 0 < sp_amount data"
    and lt: "(100::real) < 200"
    and dn: "distinct (map (\<lambda>(cat, data). lp_name cat) rent_only)"
    by (simp_all add: rent_only_def)
  have la: "list_all (\<lambda>(cat, data). sp_amount data \<noteq> 0) rent_only"
    "list_all (\<lambda>(cat, data). 0 < sp_amount data) rent_only"
    by (simp_all add: rent_only_def)
  let ?vv = "\<lambda>i::nat. if i < length [- 100 :: real] then Some ([- 100 :: real] ! i) else None"
  from optimizer_returns_solver_values [OF nz ne amt,
      where min_savings = 200 and risk_appetite = "0.5"
        and solve = "solver_outcome Infeasible [- 100]"]
  obtain prob where
    b: "build_problem 100 rent_only 200 0.5 = Inr prob"
    and r: "\<forall>status varValue. solver_outcome Infeasible [- 100] prob = Inr (status, varValue) \<longrightarrow>
        (\<exists>alloc.
           optimize_budget (solver_outcome Infeasible [- 100]) 100 rent_only 200 0.5 = Inr alloc \<and>
           distinct (map fst alloc) \<and>
           map_of alloc =
             map_of (rev (map (\<lambda>i. (lp_name (fst (rent_only ! i)), varValue i))
                            [0..<length rent_only])) \<and>
           (distinct (map (\<lambda>(cat, data). lp_name cat) rent_only) \<longrightarrow>
              alloc = map (\<lambda>i. (lp_name (fst (rent_only ! i)), varValue i))
                        [0..<length rent_only]))"
    and f: "(100::real) < 200 \<and> (\<forall>(cat, data) \<in> set rent_only. 0 < sp_amount data) \<longrightarrow>
              (\<forall>x. \<not> feasible prob x)"
    by (elim exE conjE) (rule that)
  have so: "solver_outcome Infeasible [- 100] prob = Inr (Infeasible, ?vv)"
    by (simp only: solver_outcome_def)
  from r have imp: "solver_outcome Infeasible [- 100] prob = Inr (Infeasible, ?vv) \<longrightarrow>
        (\<exists>alloc.
           optimize_budget (solver_outcome Infeasible [- 100]) 100 rent_only 200 0.5 = Inr alloc \<and>
           distinct (map fst alloc) \<and>
           map_of alloc =
             map_of (rev (map (\<lambda>i. (lp_name (fst (rent_only ! i)), ?vv i))
                            [0..<length rent_only])) \<and>
           (distinct (map (\<lambda>(cat, data). lp_name cat) rent_only) \<longrightarrow>
              alloc = map (\<lambda>i. (lp_name (fst (rent_only ! i)), ?vv i))
                        [0..<length rent_only]))"
    by (elim allE)
  have "\<exists>alloc.
           optimize_budget (solver_outcome Infeasible [- 100]) 100 rent_only 200 0.5 = Inr alloc \<and>
           distinct (map fst alloc) \<and>
           map_of alloc =
             map_of (rev (map (\<lambda>i. (lp_name (fst (rent_only ! i)), ?vv i))
                            [0..<length rent_only])) \<and>
           (distinct (map (\<lambda>(cat, data). lp_name cat) rent_only) \<longrightarrow>
              alloc = map (\<lambda>i. (lp_name (fst (rent_only ! i)), ?vv i))
                        [0..<length rent_only])"
    by (rule mp [OF imp so])
  then obtain alloc where
    o: "optimize_budget (solver_outcome Infeasible [- 100]) 100 rent_only 200 0.5 = Inr alloc"
    and dd: "distinct (map fst alloc)"
    and mm: "map_of alloc =
             map_of (rev (map (\<lambda>i. (lp_name (fst (rent_only ! i)), ?vv i))
                            [0..<length rent_only]))"
    and d: "distinct (map (\<lambda>(cat, data). lp_name cat) rent_only) \<longrightarrow>
              alloc = map (\<lambda>i. (lp_name (fst (rent_only ! i)), ?vv i)) [0..<length rent_only]"
    by (elim exE conjE) (rule that)
  from d dn have "alloc = map (\<lambda>i. (lp_name (fst (rent_only ! i)), ?vv i)) [0..<length rent_only]"
    by (rule mp)
  then have a: "alloc = [(Some ''Rent'', Some (- 100))]"
    by (simp add: rent_only_def lp_name_def illegal_chars_def)
  from f lt pos have "\<forall>x. \<not> feasible prob x" by (rule mp [OF _ conjI])
  then have nf: "\<not> feasible prob (everywhere 500)" by (rule spec)
  have c: "build_problem 100 rent_only 200 0.5 = Inr prob \<and>
      optimize_budget (solver_outcome Infeasible [- 100]) 100 rent_only 200 0.5 = Inr alloc \<and>
      alloc = [(Some ''Rent'', Some (- 100))] \<and>
      \<not> feasible prob (everywhere 500)"
    by (intro conjI) (fact b o a nf)+
  have ex: "\<exists>prob alloc. build_problem 100 rent_only 200 0.5 = Inr prob \<and>
      optimize_budget (solver_outcome Infeasible [- 100]) 100 rent_only 200 0.5 = Inr alloc \<and>
      alloc = [(Some ''Rent'', Some (- 100))] \<and>
      \<not> feasible prob (everywhere 500)"
    by (rule exI [where x = prob], rule exI [where x = alloc]) (rule c)
  have hyp: "(100::real) \<noteq> 0 \<and> rent_only \<noteq> [] \<and>
    list_all (\<lambda>(cat, data). sp_amount data \<noteq> 0) rent_only \<and>
    list_all (\<lambda>(cat, data). 0 < sp_amount data) rent_only \<and> (100::real) < 200 \<and>
    distinct (map (\<lambda>(cat, data). lp_name cat) rent_only)"
    by (intro conjI) (fact nz ne la lt dn)+
  show ?thesis by (rule conjI [OF hyp ex])
qed

section \<open>Income tax in binary floating point: proofs\<close>

subsection \<open>Rounding a number whose scaled value is known\<close>

lemma bit_length_bounds:
  "0 < n \<Longrightarrow> 2 ^ (bit_length n - 1) \<le> n \<and> n < 2 ^ bit_length n"
proof (induction n rule: bit_length.induct)
  case (1 n)
  have bl: "bit_length n = Suc (bit_length (n div 2))"
    using "1.prems" by (subst bit_length.simps) simp
  show ?case
  proof (cases "n div 2 = 0")
    case True
    then have "n = 1" using "1.prems" by presburger
    then show ?thesis by (simp add: bit_length.simps)
  next
    case False
    then have ih: "2 ^ (bit_length (n div 2) - 1) \<le> n div 2"
      "n div 2 < 2 ^ bit_length (n div 2)"
      using "1.IH" "1.prems" by auto
    have pos: "0 < bit_length (n div 2)"
      using False by (subst bit_length.simps) simp
    then have "(2::nat) ^ bit_length (n div 2) = 2 * 2 ^ (bit_length (n div 2) - 1)"
      by (cases "bit_length (n div 2)") simp_all
    then have lo: "2 ^ bit_length (n div 2) \<le> n" using ih(1) by presburger
    have hi: "n < 2 * 2 ^ bit_length (n div 2)" using ih(2) by presburger
    show ?thesis using lo hi by (simp add: bl)
  qed
qed

lemma floor_power_bounds:
  fixes y :: real
  assumes "1 \<le> y"
  shows "2 ^ (bit_length (nat \<lfloor>y\<rfloor>) - 1) \<le> y \<and> y < 2 ^ bit_length (nat \<lfloor>y\<rfloor>)"
    and "0 < bit_length (nat \<lfloor>y\<rfloor>)"
proof -
  let ?k = "nat \<lfloor>y\<rfloor>"
  have k: "0 < ?k" using assms by simp
  from bit_length_bounds [OF k] have lo: "2 ^ (bit_length ?k - 1) \<le> ?k"
    and hi: "?k < 2 ^ bit_length ?k" by simp_all
  have ky: "real ?k \<le> y" using assms by (simp add: of_nat_nat)
  have "real (2 ^ (bit_length ?k - 1)) \<le> real ?k" using lo by (rule of_nat_mono)
  then have "real (2 ^ (bit_length ?k - 1)) \<le> y" using ky by (rule order_trans)
  then have a: "2 ^ (bit_length ?k - 1) \<le> y" by (simp only: of_nat_power of_nat_numeral)
  have "?k + 1 \<le> 2 ^ bit_length ?k" using hi by linarith
  then have le: "real (?k + 1) \<le> real (2 ^ bit_length ?k)" by (rule of_nat_mono)
  have "y < of_int \<lfloor>y\<rfloor> + 1" by linarith
  also have "of_int \<lfloor>y\<rfloor> + 1 = real (?k + 1)" using assms by (simp add: of_nat_nat)
  finally have "y < real (2 ^ bit_length ?k)" using le by (rule less_le_trans)
  then have b: "y < 2 ^ bit_length ?k" by (simp only: of_nat_power of_nat_numeral)
  from a b show "2 ^ (bit_length ?k - 1) \<le> y \<and> y < 2 ^ bit_length ?k" by simp
  show "0 < bit_length ?k" using k by (subst bit_length.simps) simp
qed

lemma binary_exponent_bounds:
  fixes x :: real
  assumes "0 < x"
  shows "2 powi (binary_exponent x - 1) \<le> x \<and> x < 2 powi (binary_exponent x)"
proof (cases "1 \<le> x")
  case True
  let ?b = "bit_length (nat \<lfloor>x\<rfloor>)"
  from floor_power_bounds [OF True] have b: "2 ^ (?b - 1) \<le> x" "x < 2 ^ ?b" "0 < ?b"
    by simp_all
  have e: "binary_exponent x = int ?b" using True by (simp add: binary_exponent_def)
  have "int ?b - 1 = int (?b - 1)" using b(3) by simp
  then have "(2::real) powi (int ?b - 1) = 2 ^ (?b - 1)" by (simp only: power_int_of_nat)
  moreover have "(2::real) powi (int ?b) = 2 ^ ?b" by (rule power_int_of_nat)
  ultimately show ?thesis using b unfolding e by simp
next
  case False
  let ?y = "1 / x"
  let ?b = "bit_length (nat \<lfloor>?y\<rfloor>)"
  have y1: "1 \<le> ?y" using False assms by simp
  from floor_power_bounds [OF y1] have b: "2 ^ (?b - 1) \<le> ?y" "?y < 2 ^ ?b" "0 < ?b"
    by simp_all
  have p1: "(2::real) powi (int ?b - 1) = 2 ^ (?b - 1)"
  proof -
    have "int ?b - 1 = int (?b - 1)" using b(3) by simp
    then show ?thesis by (simp only: power_int_of_nat)
  qed
  have p2: "(2::real) powi (int ?b) = 2 ^ ?b" by (rule power_int_of_nat)
  have up: "x * 2 powi (int ?b - 1) \<le> 1"
  proof -
    have "x * 2 ^ (?b - 1) \<le> x * ?y" using b(1) assms by (intro mult_left_mono) auto
    then show ?thesis using assms by (simp add: p1)
  qed
  have lo: "1 < x * 2 powi (int ?b)"
  proof -
    have "x * ?y < x * 2 ^ ?b" using b(2) assms by (intro mult_strict_left_mono) auto
    then show ?thesis using assms by (simp add: p2)
  qed
  have inv1: "(2::real) powi (1 - int ?b) * 2 powi (int ?b - 1) = 1"
  proof -
    have "(2::real) powi (1 - int ?b) * 2 powi (int ?b - 1) = 2 powi ((1 - int ?b) + (int ?b - 1))"
      by (rule power_int_add [symmetric]) simp
    also have "(1 - int ?b) + (int ?b - 1) = 0" by simp
    finally show ?thesis by simp
  qed
  have inv2: "(2::real) powi (- int ?b) * 2 powi (int ?b) = 1"
  proof -
    have "(2::real) powi (- int ?b) * 2 powi (int ?b) = 2 powi ((- int ?b) + int ?b)"
      by (rule power_int_add [symmetric]) simp
    also have "(- int ?b) + int ?b = 0" by simp
    finally show ?thesis by simp
  qed
  have pos1: "(0::real) < 2 powi (int ?b - 1)" and pos2: "(0::real) < 2 powi (int ?b)" by simp_all
  show ?thesis
  proof (cases "1 \<le> x * 2 powi (int ?b - 1)")
    case True
    then have eq: "x * 2 powi (int ?b - 1) = 1" using up by simp
    have e: "binary_exponent x = 2 - int ?b"
      using False True by (simp add: binary_exponent_def Let_def)
    have "x * 2 powi (int ?b - 1) = 2 powi (1 - int ?b) * 2 powi (int ?b - 1)"
      using eq inv1 by simp
    then have x: "x = 2 powi (1 - int ?b)" using pos1 by simp
    have "(2::real) powi (1 - int ?b) < 2 powi (2 - int ?b)"
      by (intro power_int_strict_increasing) auto
    then show ?thesis unfolding e using x by simp
  next
    case False2: False
    have e: "binary_exponent x = 1 - int ?b"
      using False False2 by (simp add: binary_exponent_def Let_def)
    have "x * 2 powi (int ?b - 1) < 2 powi (1 - int ?b) * 2 powi (int ?b - 1)"
      using False2 inv1 by simp
    then have hi: "x < 2 powi (1 - int ?b)" using pos1 by (simp only: mult_less_cancel_right_pos)
    have "2 powi (- int ?b) * 2 powi (int ?b) < x * 2 powi (int ?b)"
      using lo inv2 by simp
    then have "2 powi (- int ?b) < x" using pos2 by (simp only: mult_less_cancel_right_pos)
    then show ?thesis unfolding e using hi by simp
  qed
qed

lemma binary_exponent_unique:
  fixes x :: real
  assumes "2 powi (n - 1) \<le> x" and "x < 2 powi n"
  shows "binary_exponent x = n"
proof -
  have "(0::real) < 2 powi (n - 1)" by simp
  then have pos: "0 < x" using assms(1) by linarith
  let ?m = "binary_exponent x"
  from binary_exponent_bounds [OF pos] have m: "2 powi (?m - 1) \<le> x" "x < 2 powi ?m"
    by simp_all
  have "\<not> ?m < n"
  proof
    assume "?m < n"
    then have "?m \<le> n - 1" by simp
    then have "(2::real) powi ?m \<le> 2 powi (n - 1)" by (intro power_int_increasing) auto
    with m(2) assms(1) show False by linarith
  qed
  moreover have "\<not> n < ?m"
  proof
    assume "n < ?m"
    then have "n \<le> ?m - 1" by simp
    then have "(2::real) powi n \<le> 2 powi (?m - 1)" by (intro power_int_increasing) auto
    with m(1) assms(2) show False by linarith
  qed
  ultimately show ?thesis by simp
qed

lemma round_half_even_near:
  assumes "\<bar>m - of_int q\<bar> < 1 / 2"
  shows "round_half_even m = q"
proof -
  have "\<lfloor>m\<rfloor> = q \<or> \<lfloor>m\<rfloor> = q - 1" using assms by linarith
  then show ?thesis
  proof
    assume f: "\<lfloor>m\<rfloor> = q"
    have "m - of_int q < 1 / 2" using assms by linarith
    then show ?thesis unfolding round_half_even_def Let_def f by simp
  next
    assume f: "\<lfloor>m\<rfloor> = q - 1"
    have "m - of_int q > - (1 / 2)" using assms by linarith
    then have "m - of_int (q - 1) > 1 / 2" by simp
    then show ?thesis unfolding round_half_even_def Let_def f by simp
  qed
qed

lemma fl_eq:
  fixes x :: real
  assumes "2 powi (n - 1) \<le> x" and "x < 2 powi n"
    and "\<bar>x * 2 powi (53 - n) - of_int q\<bar> < 1 / 2"
  shows "fl x = of_int q * 2 powi (n - 53)"
proof -
  have "(0::real) < 2 powi (n - 1)" by simp
  then have pos: "0 < x" using assms(1) by linarith
  have a: "\<bar>x\<bar> = x" and s: "sgn x = 1" and nz: "x \<noteq> 0" using pos by simp_all
  have e: "binary_exponent x = n" by (rule binary_exponent_unique [OF assms(1,2)])
  have r: "round_half_even (x * 2 powi (53 - n)) = q" by (rule round_half_even_near [OF assms(3)])
  show ?thesis unfolding fl_def Let_def a e r s using nz by simp
qed

lemma fl_eq_scaled:
  fixes x :: real and k :: nat
  assumes lo: "2 ^ 52 \<le> x * 2 ^ k" and hi: "x * 2 ^ k < 2 ^ 53"
    and near: "\<bar>x * 2 ^ k - of_int q\<bar> < 1 / 2"
  shows "fl x = of_int q / 2 ^ k"
proof -
  let ?n = "53 - int k"
  have p: "(0::real) < 2 ^ k" by simp
  have a: "(2::real) powi (?n - 1) = 2 ^ 52 / 2 ^ k"
  proof -
    have "?n - 1 = int 52 - int k" by simp
    then have "(2::real) powi (?n - 1) = 2 powi (int 52 - int k)" by simp
    also have "\<dots> = 2 powi (int 52) / 2 powi (int k)" by (rule power_int_diff) simp
    finally show ?thesis by (simp only: power_int_of_nat)
  qed
  have b: "(2::real) powi ?n = 2 ^ 53 / 2 ^ k"
  proof -
    have "?n = int 53 - int k" by simp
    then have "(2::real) powi ?n = 2 powi (int 53 - int k)" by simp
    also have "\<dots> = 2 powi (int 53) / 2 powi (int k)" by (rule power_int_diff) simp
    finally show ?thesis by (simp only: power_int_of_nat)
  qed
  have c: "(2::real) powi (53 - ?n) = 2 ^ k" by (simp add: power_int_of_nat)
  have d: "(2::real) powi (?n - 53) = 1 / 2 ^ k"
  proof -
    have "?n - 53 = - int k" by simp
    then have "(2::real) powi (?n - 53) = 2 powi (- int k)" by simp
    also have "\<dots> = inverse (2 powi (int k))" by (rule power_int_minus)
    finally show ?thesis by (simp only: power_int_of_nat inverse_eq_divide)
  qed
  have l: "2 powi (?n - 1) \<le> x" unfolding a using lo p by (simp add: divide_le_eq)
  have h: "x < 2 powi ?n" unfolding b using hi p by (simp add: less_divide_eq)
  have n: "\<bar>x * 2 powi (53 - ?n) - of_int q\<bar> < 1 / 2" unfolding c by (rule near)
  show ?thesis using fl_eq [OF l h n] unfolding d by simp
qed

lemma round_half_even_tie:
  assumes "m = of_int f + 1 / 2"
  shows "round_half_even m = (if even f then f else f + 1)"
proof -
  have "\<lfloor>m\<rfloor> = f" unfolding assms by linarith
  then show ?thesis unfolding round_half_even_def Let_def by (simp add: assms)
qed

lemma fl_eq_tie:
  fixes x :: real and k :: nat
  assumes lo: "2 ^ 52 \<le> x * 2 ^ k" and hi: "x * 2 ^ k < 2 ^ 53"
    and tie: "x * 2 ^ k = of_int f + 1 / 2"
  shows "fl x = of_int (if even f then f else f + 1) / 2 ^ k"
proof -
  let ?n = "53 - int k"
  have p: "(0::real) < 2 ^ k" by simp
  have "(0::real) < 2 ^ 52" by simp
  then have "0 < x * 2 ^ k" using lo by linarith
  then have pos: "0 < x" using p by (simp add: zero_less_mult_iff)
  have a: "(2::real) powi (?n - 1) = 2 ^ 52 / 2 ^ k"
  proof -
    have "?n - 1 = int 52 - int k" by simp
    then have "(2::real) powi (?n - 1) = 2 powi (int 52 - int k)" by simp
    also have "\<dots> = 2 powi (int 52) / 2 powi (int k)" by (rule power_int_diff) simp
    finally show ?thesis by (simp only: power_int_of_nat)
  qed
  have b: "(2::real) powi ?n = 2 ^ 53 / 2 ^ k"
  proof -
    have "?n = int 53 - int k" by simp
    then have "(2::real) powi ?n = 2 powi (int 53 - int k)" by simp
    also have "\<dots> = 2 powi (int 53) / 2 powi (int k)" by (rule power_int_diff) simp
    finally show ?thesis by (simp only: power_int_of_nat)
  qed
  have c: "(2::real) powi (53 - ?n) = 2 ^ k" by (simp add: power_int_of_nat)
  have d: "(2::real) powi (?n - 53) = 1 / 2 ^ k"
  proof -
    have "?n - 53 = - int k" by simp
    then have "(2::real) powi (?n - 53) = 2 powi (- int k)" by simp
    also have "\<dots> = inverse (2 powi (int k))" by (rule power_int_minus)
    finally show ?thesis by (simp only: power_int_of_nat inverse_eq_divide)
  qed
  have l: "2 powi (?n - 1) \<le> x" unfolding a using lo p by (simp add: divide_le_eq)
  have h: "x < 2 powi ?n" unfolding b using hi p by (simp add: less_divide_eq)
  have a': "\<bar>x\<bar> = x" and s: "sgn x = 1" and nz: "x \<noteq> 0" using pos by simp_all
  have e: "binary_exponent x = ?n" by (rule binary_exponent_unique [OF l h])
  have r: "round_half_even (x * 2 powi (53 - ?n)) = (if even f then f else f + 1)"
    unfolding c by (rule round_half_even_tie [OF tie])
  show ?thesis unfolding fl_def Let_def a' e r s d using nz by simp
qed

lemma fl_zero: "fl 0 = 0"
  by (simp add: fl_def)

subsection \<open>The tax on an income of 655056\<close>

text \<open>
  Each step of the computation for an income of 655056 under the new regime without
  deductions: three slabs are reached, the base tax is the float 28005.6, the cess the
  float 1120.224.
\<close>

lemma fx1: "fsub 655056 0 = 655056"
  unfolding fsub_def using fl_eq_scaled [where k = 33 and x = "655056 - 0" and q = 5626888194097152]
  by simp

lemma fx2: "fsub 250000 0 = 250000"
  unfolding fsub_def using fl_eq_scaled [where k = 35 and x = "250000 - 0" and q = 8589934592000000]
  by simp

lemma fx3: "fmul 250000 0 = 0"
  by (simp add: fmul_def fl_zero)

lemma fx4: "fadd 0 0 = 0"
  by (simp add: fadd_def fl_zero)

lemma fx5: "fsub 500000 250000 = 250000"
  unfolding fsub_def using fl_eq_scaled [where k = 35 and x = "500000 - 250000" and q = 8589934592000000]
  by simp

lemma fx6: "fl (1 / 20) = 3602879701896397 / 72057594037927936"
  using fl_eq_scaled [where k = 57 and x = "1 / 20" and q = 7205759403792794]
  by simp

lemma fx7: "fmul 250000 (3602879701896397 / 72057594037927936) = 12500"
  unfolding fmul_def using fl_eq_scaled [where k = 39 and x = "250000 * (3602879701896397 / 72057594037927936)" and q = 6871947673600000]
  by simp

lemma fx8: "fadd 0 12500 = 12500"
  unfolding fadd_def using fl_eq_scaled [where k = 39 and x = "0 + 12500" and q = 6871947673600000]
  by simp

lemma fx9: "fsub 655056 500000 = 155056"
  unfolding fsub_def using fl_eq_scaled [where k = 35 and x = "655056 - 500000" and q = 5327683592388608]
  by simp

lemma fx10: "fl (1 / 10) = 3602879701896397 / 36028797018963968"
  using fl_eq_scaled [where k = 56 and x = "1 / 10" and q = 7205759403792794]
  by simp

lemma fx11: "fmul 155056 (3602879701896397 / 36028797018963968) = 8524293747821773 / 549755813888"
  unfolding fmul_def using fl_eq_scaled [where k = 39 and x = "155056 * (3602879701896397 / 36028797018963968)" and q = 8524293747821773]
  by simp

lemma fx12: "fadd 12500 (8524293747821773 / 549755813888) = 3849060355355443 / 137438953472"
  unfolding fadd_def using fl_eq_tie [where k = 38 and x = "12500 + (8524293747821773 / 549755813888)" and f = 7698120710710886]
  by simp

lemma fx13: "fl (1 / 25) = 5764607523034235 / 144115188075855872"
  using fl_eq_scaled [where k = 57 and x = "1 / 25" and q = 5764607523034235]
  by simp

lemma fx14: "fmul (3849060355355443 / 137438953472) (5764607523034235 / 144115188075855872) = 4926797254854967 / 4398046511104"
  unfolding fmul_def using fl_eq_scaled [where k = 42 and x = "(3849060355355443 / 137438953472) * (5764607523034235 / 144115188075855872)" and q = 4926797254854967]
  by simp

lemma fx15: "fadd (3849060355355443 / 137438953472) (4926797254854967 / 4398046511104) = 8006045539139321 / 274877906944"
  unfolding fadd_def using fl_eq_scaled [where k = 38 and x = "(3849060355355443 / 137438953472) + (4926797254854967 / 4398046511104)" and q = 8006045539139321]
  by simp

lemma fx16: "fl (26 / 25) = 1170935903116329 / 1125899906842624"
  using fl_eq_scaled [where k = 52 and x = "26 / 25" and q = 4683743612465316]
  by simp

lemma fx17: "fmul (3849060355355443 / 137438953472) (1170935903116329 / 1125899906842624) = 4003022769569661 / 137438953472"
  unfolding fmul_def using fl_eq_scaled [where k = 38 and x = "(3849060355355443 / 137438953472) * (1170935903116329 / 1125899906842624)" and q = 8006045539139322]
  by simp

lemma base_tax_655056:
  "base_tax (calculate_income_tax_fl 655056 ''new'' 0) = 3849060355355443 / 137438953472"
  by (simp add: calculate_income_tax_fl_def new_regime_slabs_def Let_def fl_zero
      fx1 fx2 fx3 fx4 fx5 fx6 fx7 fx8 fx9 fx10 fx11 fx12 split: prod.splits)

lemma total_tax_655056:
  "total_tax (calculate_income_tax_fl 655056 ''new'' 0) = 8006045539139321 / 274877906944"
  by (simp add: calculate_income_tax_fl_def new_regime_slabs_def Let_def fl_zero
      fx1 fx2 fx3 fx4 fx5 fx6 fx7 fx8 fx9 fx10 fx11 fx12 fx13 fx14 fx15 split: prod.splits)

subsection \<open>The claim about the cess\<close>

lemma round_half_even_nonneg: "0 \<le> m \<Longrightarrow> 0 \<le> round_half_even m"
  unfolding round_half_even_def Let_def by (auto intro: zero_le_floor [THEN iffD2])

lemma fl_nonpos: "x \<le> 0 \<Longrightarrow> fl x \<le> 0"
proof -
  assume x: "x \<le> 0"
  show ?thesis
  proof (cases "x = 0")
    case True
    then show ?thesis by (simp add: fl_zero)
  next
    case False
    then have s: "sgn x = - 1" using x by simp
    let ?q = "round_half_even (\<bar>x\<bar> * 2 powi (53 - binary_exponent \<bar>x\<bar>))"
    have "0 \<le> \<bar>x\<bar> * 2 powi (53 - binary_exponent \<bar>x\<bar>)" by simp
    then have "0 \<le> ?q" by (rule round_half_even_nonneg)
    then have "0 \<le> real_of_int ?q * 2 powi (binary_exponent \<bar>x\<bar> - 53)" by simp
    then show ?thesis unfolding fl_def Let_def s using False by simp
  qed
qed

lemma slab_loop_fl_Inf: "slab_loop_fl ti tbl (tax, Inf, ds) = (tax, Inf, ds)"
  by (induction tbl) auto

lemma slab_loop_fl_le: "ti \<le> p \<Longrightarrow> slab_loop_fl ti tbl (tax, Fin p, ds) = (tax, Fin p, ds)"
  by (induction tbl) auto

lemma tax_fl_fields:
  "cess (calculate_income_tax_fl income regime deductions) =
     fmul (base_tax (calculate_income_tax_fl income regime deductions)) (fl 0.04)"
  "total_tax (calculate_income_tax_fl income regime deductions) =
     fadd (base_tax (calculate_income_tax_fl income regime deductions))
          (cess (calculate_income_tax_fl income regime deductions))"
  by (simp_all add: calculate_income_tax_fl_def Let_def split: prod.splits)

lemma tax_fl_zero_income:
  assumes "0 \<le> deductions"
  shows "base_tax (calculate_income_tax_fl 0 regime deductions) = 0"
    and "effective_rate (calculate_income_tax_fl 0 regime deductions) = 0"
proof -
  have "fsub 0 deductions \<le> 0" unfolding fsub_def using assms by (intro fl_nonpos) simp
  then have t: "max (fsub 0 deductions) 0 = 0" by simp
  show "base_tax (calculate_income_tax_fl 0 regime deductions) = 0"
    unfolding calculate_income_tax_fl_def Let_def t by (simp add: slab_loop_fl_le)
  show "effective_rate (calculate_income_tax_fl 0 regime deductions) = 0"
    unfolding calculate_income_tax_fl_def Let_def by (simp split: prod.splits)
qed

text \<open>
  Claim C7, as the code has it. The cess is the base tax times 0.04 and the total tax is
  the base tax plus the cess, each the result of one float operation. In exact arithmetic
  that total is the base tax times 1.04. With a gross income of 0 and deductions that are
  not negative, the base tax, the cess, the total tax and the effective rate are all 0, and
  no division is attempted.
\<close>

theorem total_tax_is_base_plus_cess:
  "let r = calculate_income_tax_fl income regime deductions
   in cess r = fmul (base_tax r) (fl 0.04) \<and>
      total_tax r = fadd (base_tax r) (cess r) \<and>
      total_tax (calculate_income_tax income regime deductions) =
        base_tax (calculate_income_tax income regime deductions) * 1.04 \<and>
      (income = 0 \<and> 0 \<le> deductions \<longrightarrow>
         base_tax r = 0 \<and> cess r = 0 \<and> total_tax r = 0 \<and> effective_rate r = 0)"
proof -
  let ?r = "calculate_income_tax_fl income regime deductions"
  have a: "cess ?r = fmul (base_tax ?r) (fl 0.04)" by (rule tax_fl_fields(1))
  have b: "total_tax ?r = fadd (base_tax ?r) (cess ?r)" by (rule tax_fl_fields(2))
  have c: "total_tax (calculate_income_tax income regime deductions) =
        base_tax (calculate_income_tax income regime deductions) * 1.04"
    by (simp add: calculate_income_tax_def Let_def split: prod.splits)
  have d: "base_tax ?r = 0 \<and> cess ?r = 0 \<and> total_tax ?r = 0 \<and> effective_rate ?r = 0"
    if "income = 0" "0 \<le> deductions"
  proof -
    have z: "base_tax ?r = 0" "effective_rate ?r = 0"
      using tax_fl_zero_income [OF that(2), of regime] that(1) by simp_all
    have cz: "cess ?r = 0" unfolding a z by (simp add: fmul_def fl_zero)
    have tz: "total_tax ?r = 0" unfolding b z cz by (simp add: fadd_def fl_zero)
    from z cz tz show ?thesis by simp
  qed
  from a b c d show ?thesis unfolding Let_def by blast
qed

theorem total_tax_is_base_plus_cess_witness:
  "((0::real) = 0 \<and> (0::real) \<le> 150000) \<and>
   base_tax (calculate_income_tax_fl 0 ''old'' 150000) = 0 \<and>
   cess (calculate_income_tax_fl 0 ''old'' 150000) = 0 \<and>
   total_tax (calculate_income_tax_fl 0 ''old'' 150000) = 0 \<and>
   effective_rate (calculate_income_tax_fl 0 ''old'' 150000) = 0"
proof -
  note th = total_tax_is_base_plus_cess [of 0 "''old''" 150000, unfolded Let_def]
  from th have imp: "(0::real) = 0 \<and> (0::real) \<le> 150000 \<longrightarrow>
      base_tax (calculate_income_tax_fl 0 ''old'' 150000) = 0 \<and>
      cess (calculate_income_tax_fl 0 ''old'' 150000) = 0 \<and>
      total_tax (calculate_income_tax_fl 0 ''old'' 150000) = 0 \<and>
      effective_rate (calculate_income_tax_fl 0 ''old'' 150000) = 0"
    by (elim conjE)
  have h: "(0::real) = 0 \<and> (0::real) \<le> 150000" by simp
  from imp h have "base_tax (calculate_income_tax_fl 0 ''old'' 150000) = 0 \<and>
      cess (calculate_income_tax_fl 0 ''old'' 150000) = 0 \<and>
      total_tax (calculate_income_tax_fl 0 ''old'' 150000) = 0 \<and>
      effective_rate (calculate_income_tax_fl 0 ''old'' 150000) = 0"
    by (rule mp)
  with h show ?thesis by (rule conjI)
qed

text \<open>
  For an income of 655056 the returned total tax is the float 29125.823999999997, while
  the base tax times 1.04 is 29125.824 as a float product, and yet another number in exact
  arithmetic.
\<close>

theorem total_tax_is_base_plus_cess_counterexample:
  "base_tax (calculate_income_tax_fl 655056 ''new'' 0) = 3849060355355443 / 137438953472 \<and>
   cess (calculate_income_tax_fl 655056 ''new'' 0) = 4926797254854967 / 4398046511104 \<and>
   total_tax (calculate_income_tax_fl 655056 ''new'' 0) = 8006045539139321 / 274877906944 \<and>
   fmul (base_tax (calculate_income_tax_fl 655056 ''new'' 0)) (fl 1.04) =
     4003022769569661 / 137438953472 \<and>
   total_tax (calculate_income_tax_fl 655056 ''new'' 0) \<noteq>
     fmul (base_tax (calculate_income_tax_fl 655056 ''new'' 0)) (fl 1.04) \<and>
   total_tax (calculate_income_tax_fl 655056 ''new'' 0) \<noteq>
     base_tax (calculate_income_tax_fl 655056 ''new'' 0) * 1.04"
proof -
  have b: "base_tax (calculate_income_tax_fl 655056 ''new'' 0) = 3849060355355443 / 137438953472"
    by (rule base_tax_655056)
  have t: "total_tax (calculate_income_tax_fl 655056 ''new'' 0) = 8006045539139321 / 274877906944"
    by (rule total_tax_655056)
  have c: "cess (calculate_income_tax_fl 655056 ''new'' 0) = 4926797254854967 / 4398046511104"
    unfolding tax_fl_fields(1) b by (simp add: fx13 fx14)
  have p: "fmul (base_tax (calculate_income_tax_fl 655056 ''new'' 0)) (fl 1.04) =
      4003022769569661 / 137438953472"
    unfolding b by (simp add: fx16 fx17)
  show ?thesis unfolding p unfolding b t c by simp
qed

end
